theory Spec2Isabelle
  imports Main "HOL-Library.Word" "HOL-Library.Sublist"
begin

unbundle bit_operations_syntax

chapter \<open>VR Streamer: pipeline infrastructure, encoder and configuration\<close>

text \<open>
  A shallow embedding of the parts of the VR streamer that its specification makes
  checkable statements about: the single-producer/single-consumer ring buffer, the frame
  buffer pool, the capture manager's recovery path, the stereo shaper and the encoder
  pipeline, the connection acceptor of the broadcast server, the runtime quality setters
  and the configuration file writer and reader.

  Machine integers are words of the width the source declares (\<open>u32\<close>, \<open>size_t\<close>);
  mutation is explicit state passing; the order of checks follows the source. A data
  member that the source writes with a trailing underscore (\<open>head_\<close>) has the prefix
  \<open>m_\<close> here (\<open>m_head\<close>).
\<close>

type_synonym u8 = "8 word"
type_synonym u16 = "16 word"
type_synonym u32 = "32 word"
type_synonym i32 = "32 word"
type_synonym u64 = "64 word"
type_synonym size_t = "64 word"


section \<open>Ring buffer: \<open>include/core/spsc_queue.hpp\<close>\<close>

text \<open>
  \<open>is_power_of_2\<close> of \<open>common.hpp\<close> is \<open>std::has_single_bit\<close> on a 64-bit value: the
  value is \<open>2 ^ k\<close> for one of the 64 bit positions.
\<close>

definition is_power_of_2 :: "u64 \<Rightarrow> bool" where
  "is_power_of_2 v = list_ex (\<lambda>k. v = 2 ^ k) [0..<64]"

text \<open>
  \<open>SPSCQueue<T, N>\<close>. The template parameter \<open>N\<close> is passed to every operation; the
  class requires \<open>is_power_of_2(N) && N >= 2\<close>. The two atomics are plain fields: the
  model is the sequential behaviour of the operations, one call at a time.
\<close>

definition MASK :: "size_t \<Rightarrow> size_t" where
  "MASK N = N - 1"

record 'a SPSCQueue =
  m_head :: size_t
  m_tail :: size_t
  m_storage :: "'a list"

text \<open>The constructor: both indices 0, every slot holding the default value \<open>T{}\<close>.\<close>

definition SPSCQueue_init :: "size_t \<Rightarrow> 'a \<Rightarrow> 'a SPSCQueue" where
  "SPSCQueue_init N dflt = \<lparr>m_head = 0, m_tail = 0, m_storage = replicate (unat N) dflt\<rparr>"

definition try_push :: "size_t \<Rightarrow> 'a SPSCQueue \<Rightarrow> 'a \<Rightarrow> bool \<times> 'a SPSCQueue" where
  "try_push N q item =
     (let tail = m_tail q;
          next = (tail + 1) AND MASK N
      in if next = m_head q then (False, q)
         else (True, q\<lparr>m_storage := (m_storage q)[unat tail := item], m_tail := next\<rparr>))"

text \<open>
  \<open>try_pop(T &item)\<close> returns \<open>false\<close> and leaves \<open>item\<close> alone, or moves the slot into
  \<open>item\<close> and returns \<open>true\<close>: the model returns \<open>None\<close> or \<open>Some item\<close>.
\<close>

definition try_pop :: "size_t \<Rightarrow> 'a SPSCQueue \<Rightarrow> 'a option \<times> 'a SPSCQueue" where
  "try_pop N q =
     (let head = m_head q
      in if head = m_tail q then (None, q)
         else (Some (m_storage q ! unat head), q\<lparr>m_head := (head + 1) AND MASK N\<rparr>))"

definition queue_empty :: "'a SPSCQueue \<Rightarrow> bool" where
  "queue_empty q \<longleftrightarrow> m_head q = m_tail q"

definition queue_full :: "size_t \<Rightarrow> 'a SPSCQueue \<Rightarrow> bool" where
  "queue_full N q \<longleftrightarrow> (m_tail q + 1) AND MASK N = m_head q"

definition size_approx :: "size_t \<Rightarrow> 'a SPSCQueue \<Rightarrow> size_t" where
  "size_approx N q = (m_tail q - m_head q + N) AND MASK N"

definition queue_clear :: "'a SPSCQueue \<Rightarrow> 'a SPSCQueue" where
  "queue_clear q = q\<lparr>m_head := m_tail q\<rparr>"

text \<open>
  The states a queue can be in: those the constructor builds and the public operations
  reach from there, in any order.
\<close>

datatype 'a queue_op = Push 'a | Pop | Clear

fun queue_step :: "size_t \<Rightarrow> 'a SPSCQueue \<Rightarrow> 'a queue_op \<Rightarrow> 'a SPSCQueue" where
  "queue_step N q (Push x) = snd (try_push N q x)"
| "queue_step N q Pop = snd (try_pop N q)"
| "queue_step N q Clear = queue_clear q"

definition queue_run :: "size_t \<Rightarrow> 'a \<Rightarrow> 'a queue_op list \<Rightarrow> 'a SPSCQueue" where
  "queue_run N dflt ops = foldl (queue_step N) (SPSCQueue_init N dflt) ops"


section \<open>Frame buffer pool: \<open>include/core/memory_pool.hpp\<close>\<close>

text \<open>
  \<open>FrameBufferPool::Buffer\<close> without its pixel storage: the pool only looks at the
  metadata. Sizes are \<open>size_t\<close> values read as naturals; the one product the pool
  computes, \<open>m_pool_size * 2\<close>, is reduced modulo \<open>2 ^ 64\<close> as the machine does.
\<close>

record Buffer =
  capacity :: nat
  buf_size :: nat
  width :: u32
  height :: u32
  stride :: u32
  format :: u32
  timestamp :: u64
  frame_id :: u32

definition Buffer_new :: Buffer where
  "Buffer_new = \<lparr>capacity = 0, buf_size = 0, width = 0, height = 0, stride = 0,
                  format = 0, timestamp = 0, frame_id = 0\<rparr>"

definition allocate :: "nat \<Rightarrow> Buffer \<Rightarrow> Buffer" where
  "allocate cap b = (if cap > capacity b then b\<lparr>capacity := cap\<rparr> else b)\<lparr>buf_size := 0\<rparr>"

definition reset :: "Buffer \<Rightarrow> Buffer" where
  "reset b = b\<lparr>buf_size := 0, width := 0, height := 0, stride := 0, timestamp := 0\<rparr>"

text \<open>The free list is a \<open>std::stack\<close>: its top is the head of the list.\<close>

record FrameBufferPool =
  m_buffer_size :: nat
  m_pool_size :: nat
  m_free_buffers :: "Buffer list"

definition FrameBufferPool_init :: "nat \<Rightarrow> nat \<Rightarrow> FrameBufferPool" where
  "FrameBufferPool_init buffer_size pool_size =
     \<lparr>m_buffer_size = buffer_size, m_pool_size = pool_size,
      m_free_buffers = replicate pool_size (allocate buffer_size Buffer_new)\<rparr>"

definition acquire :: "FrameBufferPool \<Rightarrow> Buffer \<times> FrameBufferPool" where
  "acquire p =
     (case m_free_buffers p of
        [] \<Rightarrow> (allocate (m_buffer_size p) Buffer_new, p)
      | buf # rest \<Rightarrow> (reset buf, p\<lparr>m_free_buffers := rest\<rparr>))"

text \<open>\<open>release\<close> takes a \<open>shared_ptr\<close>, which may be null: \<open>None\<close>.\<close>

definition release :: "FrameBufferPool \<Rightarrow> Buffer option \<Rightarrow> FrameBufferPool" where
  "release p buf =
     (case buf of
        None \<Rightarrow> p
      | Some b \<Rightarrow>
          if length (m_free_buffers p) < (m_pool_size p * 2) mod 2 ^ 64
          then p\<lparr>m_free_buffers := reset b # m_free_buffers p\<rparr>
          else p)"

definition free_count :: "FrameBufferPool \<Rightarrow> nat" where
  "free_count p = length (m_free_buffers p)"

text \<open>
  The pool and its users. \<open>holders\<close> are the buffers handed out by \<open>acquire\<close> that
  their holder has neither released nor dropped; the pool itself keeps no such list.
  A user acquires, releases the \<open>i\<close>-th buffer it holds (a null pointer when it holds no
  such buffer), or drops its reference without telling the pool.
\<close>

record pool_world =
  pool :: FrameBufferPool
  holders :: "Buffer list"

datatype pool_op = Acquire | Release nat | Drop nat

definition drop_nth :: "nat \<Rightarrow> 'a list \<Rightarrow> 'a list" where
  "drop_nth i xs = take i xs @ drop (Suc i) xs"

fun pool_step :: "pool_world \<Rightarrow> pool_op \<Rightarrow> pool_world" where
  "pool_step w Acquire =
     (let (b, p') = acquire (pool w) in \<lparr>pool = p', holders = b # holders w\<rparr>)"
| "pool_step w (Release i) =
     (if i < length (holders w)
      then \<lparr>pool = release (pool w) (Some (holders w ! i)), holders = drop_nth i (holders w)\<rparr>
      else w\<lparr>pool := release (pool w) None\<rparr>)"
| "pool_step w (Drop i) = w\<lparr>holders := drop_nth i (holders w)\<rparr>"

definition pool_run :: "nat \<Rightarrow> nat \<Rightarrow> pool_op list \<Rightarrow> pool_world" where
  "pool_run buffer_size pool_size ops =
     foldl pool_step \<lparr>pool = FrameBufferPool_init buffer_size pool_size, holders = []\<rparr> ops"

definition in_use_count :: "pool_world \<Rightarrow> nat" where
  "in_use_count w = length (holders w)"


section \<open>Single and double precision numbers\<close>

text \<open>
  A finite binary floating-point number is a mantissa and an exponent: \<open>Flt m e\<close> stands
  for \<open>m * 2 ^ e\<close>. An operation of the source on finite \<open>f32\<close> (\<open>f64\<close>) values
  computes the exact result and rounds it to 24 (53) significant bits, to the nearest number
  and to the even mantissa on a tie, which is what IEEE 754 arithmetic does. The limits of the
  exponent (overflow to an infinity, subnormal numbers) and the sign of a zero are not
  modelled.
\<close>

datatype flt = Flt (mant: int) (expo: int)

text \<open>
  An \<open>f32\<close> is a finite number, an infinity (\<open>Infinity True\<close> is the negative one) or
  NaN. The \<open>f64\<close> values of the model are all finite: they are conversions of \<open>size_t\<close>
  values, and the one \<open>f64\<close> division records a zero divisor in its result type.
\<close>

datatype f32 = Finite flt | Infinity bool | NaN

type_synonym f64 = flt

fun bit_length :: "nat \<Rightarrow> nat" where
  "bit_length n = (if n = 0 then 0 else Suc (bit_length (n div 2)))"

declare bit_length.simps [simp del]

text \<open>
  Rounding to \<open>p\<close> significant bits: a mantissa of \<open>L > p\<close> bits loses its \<open>L - p\<close> low
  bits \<open>r\<close>; the kept part \<open>q\<close> goes up when \<open>r\<close> is more than half a unit, or is exactly
  half a unit and \<open>q\<close> is odd.
\<close>

definition round_to :: "nat \<Rightarrow> flt \<Rightarrow> flt" where
  "round_to p x =
     (let a = nat \<bar>mant x\<bar>; L = bit_length a
      in if L \<le> p then x
         else let s = L - p; q = a div 2 ^ s; r = a mod 2 ^ s; h = 2 ^ (s - 1);
                  q' = (if r < h then q else if h < r then q + 1
                        else if even q then q else q + 1)
              in Flt (sgn (mant x) * int q') (expo x + int s))"

definition fp_mul :: "nat \<Rightarrow> flt \<Rightarrow> flt \<Rightarrow> flt" where
  "fp_mul p a b = round_to p (Flt (mant a * mant b) (expo a + expo b))"

text \<open>
  The quotient, for a divisor that is not zero: the mantissas are divided with \<open>p + 2\<close>
  bits or more in the integer quotient \<open>q\<close>, and a last bit records whether the division
  left a remainder, so that rounding sees on which side of a tie the exact quotient lies.
\<close>

definition fp_div :: "nat \<Rightarrow> flt \<Rightarrow> flt \<Rightarrow> flt" where
  "fp_div p a b =
     (let na = nat \<bar>mant a\<bar>; nb = nat \<bar>mant b\<bar>;
          k = (p + 2 + bit_length nb) - bit_length na;
          q = (na * 2 ^ k) div nb; r = (na * 2 ^ k) mod nb;
          m = 2 * q + (if r = 0 then 0 else 1)
      in round_to p (Flt (sgn (mant a) * sgn (mant b) * int m) (expo a - expo b - int k - 1)))"

definition fp_of_int :: "nat \<Rightarrow> int \<Rightarrow> flt" where
  "fp_of_int p n = round_to p (Flt n 0)"

text \<open>The integer part, towards zero: what a cast to an integer type keeps.\<close>

definition fp_trunc :: "flt \<Rightarrow> int" where
  "fp_trunc x = (if 0 \<le> expo x then mant x * 2 ^ nat (expo x)
                 else sgn (mant x) * (\<bar>mant x\<bar> div 2 ^ nat (- expo x)))"

definition fp_less :: "flt \<Rightarrow> flt \<Rightarrow> bool" where
  "fp_less a b =
     (let e = min (expo a) (expo b)
      in mant a * 2 ^ nat (expo a - e) < mant b * 2 ^ nat (expo b - e))"

definition fp_le :: "flt \<Rightarrow> flt \<Rightarrow> bool" where
  "fp_le a b =
     (let e = min (expo a) (expo b)
      in mant a * 2 ^ nat (expo a - e) \<le> mant b * 2 ^ nat (expo b - e))"

definition f32_of_u32 :: "u32 \<Rightarrow> f32" where
  "f32_of_u32 w = Finite (fp_of_int 24 (uint w))"

definition f32_of_i32 :: "i32 \<Rightarrow> f32" where
  "f32_of_i32 w = Finite (fp_of_int 24 (sint w))"

text \<open>
  The product and the quotient of IEEE 754: NaN from a NaN operand, from \<open>0 * \<infinity>\<close>,
  \<open>0 / 0\<close> and \<open>\<infinity> / \<infinity>\<close>; an infinity from a number that is not zero divided by
  zero.
\<close>

fun f32_mul :: "f32 \<Rightarrow> f32 \<Rightarrow> f32" where
  "f32_mul (Finite a) (Finite b) = Finite (fp_mul 24 a b)"
| "f32_mul (Finite a) (Infinity t) = (if mant a = 0 then NaN else Infinity ((mant a < 0) \<noteq> t))"
| "f32_mul (Infinity s) (Finite b) = (if mant b = 0 then NaN else Infinity (s \<noteq> (mant b < 0)))"
| "f32_mul (Infinity s) (Infinity t) = Infinity (s \<noteq> t)"
| "f32_mul NaN b = NaN"
| "f32_mul a NaN = NaN"

fun f32_div :: "f32 \<Rightarrow> f32 \<Rightarrow> f32" where
  "f32_div (Finite a) (Finite b) =
     (if mant b \<noteq> 0 then Finite (fp_div 24 a b)
      else if mant a = 0 then NaN else Infinity (mant a < 0))"
| "f32_div (Finite a) (Infinity t) = Finite (Flt 0 0)"
| "f32_div (Infinity s) (Finite b) = Infinity (s \<noteq> (mant b < 0))"
| "f32_div (Infinity s) (Infinity t) = NaN"
| "f32_div NaN b = NaN"
| "f32_div a NaN = NaN"

text \<open>
  The comparisons \<open><\<close> and \<open><=\<close>: false whenever an operand is NaN.
\<close>

fun f32_less :: "f32 \<Rightarrow> f32 \<Rightarrow> bool" where
  "f32_less (Finite a) (Finite b) = fp_less a b"
| "f32_less (Finite a) (Infinity t) = (\<not> t)"
| "f32_less (Infinity s) (Finite b) = s"
| "f32_less (Infinity s) (Infinity t) = (s \<and> \<not> t)"
| "f32_less NaN b = False"
| "f32_less a NaN = False"

fun f32_le :: "f32 \<Rightarrow> f32 \<Rightarrow> bool" where
  "f32_le (Finite a) (Finite b) = fp_le a b"
| "f32_le (Finite a) (Infinity t) = (\<not> t)"
| "f32_le (Infinity s) (Finite b) = s"
| "f32_le (Infinity s) (Infinity t) = (s \<or> \<not> t)"
| "f32_le NaN b = False"
| "f32_le a NaN = False"

text \<open>
  \<open>static_cast<u32>(f)\<close>. The cast is undefined in C++ when the integer part does not
  fit, and for an infinity and NaN; the model wraps the integer part into 32 bits and takes
  0 for an infinity and for NaN.
\<close>

fun f32_to_u32 :: "f32 \<Rightarrow> u32" where
  "f32_to_u32 (Finite x) = word_of_int (fp_trunc x)"
| "f32_to_u32 (Infinity s) = 0"
| "f32_to_u32 NaN = 0"

text \<open>A decimal literal such as \<open>0.1f\<close>, \<open>f32_lit 1 10\<close>: the \<open>f32\<close> nearest to \<open>n / d\<close>.\<close>

definition f32_lit :: "int \<Rightarrow> int \<Rightarrow> f32" where
  "f32_lit n d = Finite (fp_div 24 (Flt n 0) (Flt d 0))"

text \<open>
  A division whose divisor may be zero, where IEEE arithmetic yields an infinity or NaN
  instead of a number.
\<close>

datatype quotient = Quot flt | Div_By_Zero

definition f64_div :: "f64 \<Rightarrow> f64 \<Rightarrow> quotient" where
  "f64_div a b = (if mant b = 0 then Div_By_Zero else Quot (fp_div 53 a b))"

definition f64_of_size_t :: "size_t \<Rightarrow> f64" where
  "f64_of_size_t w = fp_of_int 53 (uint w)"


section \<open>Configuration: \<open>include/core/config.hpp\<close>\<close>

record CaptureConfig =
  target_fps :: u32
  monitor_index :: u32
  capture_cursor :: bool
  use_gpu_capture :: bool
  frame_buffer_count :: u32
  wait_for_vsync :: bool

datatype Method = JPEG | NVJPEG | TURBOJPEG | H264 | RAW

text \<open>
  The member \<open>EncoderConfig::method\<close> has the name of its key in the configuration
  file, \<open>compression_method\<close>.
\<close>

record EncoderConfig =
  jpeg_quality :: u32
  downscale_factor :: f32
  output_width :: u32
  output_height :: u32
  compression_method :: Method
  vr_enabled :: bool
  eye_separation :: f32
  use_gpu :: bool
  gpu_device_id :: i32
  use_nvenc :: bool
  use_nvjpeg :: bool
  h264_bitrate :: u32
  h264_gop_length :: u32
  h264_low_latency :: bool

record NetworkConfig =
  host :: string
  port :: u16
  http_port :: u16
  static_ip :: string
  max_clients :: u32
  send_buffer_size :: u32
  ping_interval :: f32
  use_tcp_nodelay :: bool
  use_cork :: bool

record Config =
  capture :: CaptureConfig
  encoder :: EncoderConfig
  network :: NetworkConfig

text \<open>\<open>Config config;\<close>: every member at its default member initializer.\<close>

definition Config_new :: Config where
  "Config_new =
     \<lparr>capture = \<lparr>target_fps = 60, monitor_index = 0, capture_cursor = True,
                  use_gpu_capture = True, frame_buffer_count = 3, wait_for_vsync = False\<rparr>,
      encoder = \<lparr>jpeg_quality = 65, downscale_factor = f32_lit 65 100, output_width = 0,
                  output_height = 0, compression_method = TURBOJPEG, vr_enabled = True,
                  eye_separation = f32_lit 3 100, use_gpu = True, gpu_device_id = 0,
                  use_nvenc = True, use_nvjpeg = True, h264_bitrate = 20000,
                  h264_gop_length = 30, h264_low_latency = True\<rparr>,
      network = \<lparr>host = ''0.0.0.0'', port = 8765, http_port = 8080, static_ip = '''',
                  max_clients = 4, send_buffer_size = 64 * 1024, ping_interval = Finite (Flt 1 0),
                  use_tcp_nodelay = True, use_cork = False\<rparr>\<rparr>"

datatype QualityPreset = ULTRA_PERFORMANCE | LOW_LATENCY | BALANCED | QUALITY | MAXIMUM_QUALITY

fun apply_preset :: "Config \<Rightarrow> QualityPreset \<Rightarrow> Config" where
  "apply_preset c ULTRA_PERFORMANCE =
     c\<lparr>encoder := (encoder c)\<lparr>jpeg_quality := 40, downscale_factor := f32_lit 35 100,
                                compression_method := TURBOJPEG\<rparr>,
       capture := (capture c)\<lparr>target_fps := 90\<rparr>\<rparr>"
| "apply_preset c LOW_LATENCY =
     c\<lparr>encoder := (encoder c)\<lparr>jpeg_quality := 55, downscale_factor := Finite (Flt 1 (- 1)),
                                compression_method := TURBOJPEG\<rparr>,
       capture := (capture c)\<lparr>target_fps := 60\<rparr>\<rparr>"
| "apply_preset c BALANCED =
     c\<lparr>encoder := (encoder c)\<lparr>jpeg_quality := 70, downscale_factor := f32_lit 65 100,
                                compression_method := NVJPEG\<rparr>,
       capture := (capture c)\<lparr>target_fps := 60\<rparr>\<rparr>"
| "apply_preset c QUALITY =
     c\<lparr>encoder := (encoder c)\<lparr>jpeg_quality := 80, downscale_factor := f32_lit 8 10,
                                compression_method := H264\<rparr>,
       capture := (capture c)\<lparr>target_fps := 45\<rparr>\<rparr>"
| "apply_preset c MAXIMUM_QUALITY =
     c\<lparr>encoder := (encoder c)\<lparr>jpeg_quality := 95, downscale_factor := Finite (Flt 1 0),
                                compression_method := H264, h264_bitrate := 50000\<rparr>,
       capture := (capture c)\<lparr>target_fps := 30\<rparr>\<rparr>"

definition default_config :: Config where
  "default_config = apply_preset Config_new LOW_LATENCY"


section \<open>Stereo shaper: \<open>src/encoder/stereo_processor.cpp\<close>\<close>

text \<open>
  A raster is the memory behind its base pointer: a byte for every offset. The source
  and the destination of the shaper are different buffers.
\<close>

type_synonym mem = "nat \<Rightarrow> u8"

text \<open>The three assignments \<open>dst_pixel[c] = src_pixel[c]\<close>, B, G and R.\<close>

definition copy_pixel :: "mem \<Rightarrow> nat \<Rightarrow> mem \<Rightarrow> nat \<Rightarrow> mem" where
  "copy_pixel src s dst d = dst(d := src s, d + 1 := src (s + 1), d + 2 := src (s + 2))"

text \<open>The source column of a left-eye pixel and of a right-eye pixel, as the loops compute it.\<close>

definition left_src_x :: "u32 \<Rightarrow> u32 \<Rightarrow> f32 \<Rightarrow> u32 \<Rightarrow> u32" where
  "left_src_x input_width separation_pixels x_scale x =
     (let src_x = f32_to_u32 (f32_mul (f32_of_u32 x) x_scale)
      in if src_x + separation_pixels < input_width
         then min src_x (input_width - separation_pixels - 1)
         else src_x)"

definition right_src_x :: "u32 \<Rightarrow> u32 \<Rightarrow> f32 \<Rightarrow> u32 \<Rightarrow> u32" where
  "right_src_x input_width separation_pixels x_scale x =
     (let src_x = f32_to_u32 (f32_mul (f32_of_u32 x) x_scale) + separation_pixels
      in min src_x (input_width - 1))"

text \<open>
  The two inner loops, over \<open>x = 0, \<dots>, half_width - 1\<close>. \<open>src_row\<close> and \<open>dst_row\<close> are
  the offsets of the two row pointers; the products that are added to them are \<open>u32\<close>
  products.
\<close>

definition left_eye ::
  "mem \<Rightarrow> nat \<Rightarrow> u32 \<Rightarrow> u32 \<Rightarrow> u32 \<Rightarrow> f32 \<Rightarrow> u32 \<Rightarrow> nat \<Rightarrow> mem \<Rightarrow> mem" where
  "left_eye input src_row input_width input_channels separation_pixels x_scale half_width
     dst_row output =
     foldl (\<lambda>out x.
              copy_pixel input
                (src_row + unat (left_src_x input_width separation_pixels x_scale x
                                  * input_channels))
                out (dst_row + unat (x * 3)))
       output (map of_nat [0..<unat half_width])"

definition right_eye ::
  "mem \<Rightarrow> nat \<Rightarrow> u32 \<Rightarrow> u32 \<Rightarrow> u32 \<Rightarrow> f32 \<Rightarrow> u32 \<Rightarrow> nat \<Rightarrow> mem \<Rightarrow> mem" where
  "right_eye input src_row input_width input_channels separation_pixels x_scale half_width
     dst_row output =
     foldl (\<lambda>out x.
              copy_pixel input
                (src_row + unat (right_src_x input_width separation_pixels x_scale x
                                  * input_channels))
                out (dst_row + unat ((half_width + x) * 3)))
       output (map of_nat [0..<unat half_width])"

text \<open>The body of the loop over the rows, for the row \<open>y\<close> (an \<open>i32\<close>).\<close>

definition stereo_row ::
  "mem \<Rightarrow> u32 \<Rightarrow> u32 \<Rightarrow> u32 \<Rightarrow> u32 \<Rightarrow> u32 \<Rightarrow> u32 \<Rightarrow> f32 \<Rightarrow> f32 \<Rightarrow> mem \<Rightarrow> i32 \<Rightarrow> mem" where
  "stereo_row input input_width input_pitch input_channels half_width output_pitch
     separation_pixels x_scale y_scale output y =
     (let src_y = f32_to_u32 (f32_mul (f32_of_i32 y) y_scale);
          src_row = unat (src_y * input_pitch);
          dst_row = unat (y * output_pitch)
      in right_eye input src_row input_width input_channels separation_pixels x_scale
           half_width dst_row
           (left_eye input src_row input_width input_channels separation_pixels x_scale
              half_width dst_row output))"

text \<open>
  \<open>CPUStereoProcessor::process_scaled\<close>: the pitch it returns and the destination it
  leaves. The row loop runs while \<open>y < static_cast<i32>(output_height)\<close>. A
  parameter whose name is also the name of a configuration key carries a prime. The rows are
  independent, and the model visits them in order. The statistics (times) are left out.
\<close>

definition process_scaled ::
  "mem \<Rightarrow> u32 \<Rightarrow> u32 \<Rightarrow> u32 \<Rightarrow> u32 \<Rightarrow> mem \<Rightarrow> u32 \<Rightarrow> u32 \<Rightarrow> f32 \<Rightarrow> f32 \<Rightarrow> u32 \<times> mem" where
  "process_scaled input input_width input_height input_pitch input_channels
     output output_width' output_height' downscale_factor' eye_separation' =
     (let half_width = output_width' div 2;
          output_pitch = output_width' * 3;
          separation_pixels = f32_to_u32 (f32_mul (f32_of_u32 input_width) eye_separation');
          scaled_height = output_height';
          x_scale = f32_div (f32_of_u32 input_width) (f32_of_u32 half_width);
          y_scale = f32_div (f32_of_u32 input_height) (f32_of_u32 scaled_height)
      in (output_pitch,
          foldl (stereo_row input input_width input_pitch input_channels half_width
                   output_pitch separation_pixels x_scale y_scale)
            output (map of_nat [0..<nat (sint output_height')])))"


section \<open>JPEG compressor: \<open>src/encoder/jpeg_encoder.cpp\<close>\<close>

text \<open>
  What a compressor is asked to encode. The libraries behind the compressors
  (libjpeg-turbo, nvJPEG) are not part of the program: \<open>codec\<close> is the number of bytes a
  library writes for a request, or \<open>None\<close> when it reports an error. The image a
  library writes has the width and the height of the request.
\<close>

record jpeg_request =
  jr_input :: mem
  jr_width :: u32
  jr_height :: u32
  jr_pitch :: u32
  jr_channels :: u32
  jr_quality :: u32

type_synonym codec = "jpeg_request \<Rightarrow> size_t option"

datatype jpeg_backend = NvJPEG | TurboJPEG | OpenCV

text \<open>
  \<open>AutoJPEGEncoder::AutoJPEGEncoder\<close>: nvJPEG when the build has CUDA and nvJPEG
  initializes, else TurboJPEG when \<open>tjInitCompress\<close> gave a handle, else the fallback.
\<close>

record jpeg_platform =
  has_cuda :: bool
  nvjpeg_init :: bool
  tj_init :: bool

definition AutoJPEGEncoder_init :: "jpeg_platform \<Rightarrow> jpeg_backend" where
  "AutoJPEGEncoder_init pl =
     (if has_cuda pl \<and> nvjpeg_init pl then NvJPEG
      else if tj_init pl then TurboJPEG
      else OpenCV)"

text \<open>
  \<open>encode\<close> of the selected compressor: the size of the encoded data, 0 on failure.
  \<open>OpenCVJPEGEncoder::encode\<close> ignores its arguments and returns 0.
\<close>

fun jpeg_encode :: "codec \<Rightarrow> jpeg_backend \<Rightarrow> jpeg_request \<Rightarrow> size_t" where
  "jpeg_encode lib TurboJPEG rq = (case lib rq of None \<Rightarrow> 0 | Some actual_size \<Rightarrow> actual_size)"
| "jpeg_encode lib NvJPEG rq = (case lib rq of None \<Rightarrow> 0 | Some encoded_size \<Rightarrow> encoded_size)"
| "jpeg_encode lib OpenCV rq = 0"


section \<open>Encoder pipeline: \<open>VRFrameEncoder\<close> in \<open>src/encoder/stereo_processor.cpp\<close>\<close>

text \<open>\<open>VRFrameEncoder::Stats\<close> without its three times.\<close>

record EncoderStats =
  frames_encoded :: u64
  bytes_encoded :: u64
  compression_ratio :: quotient

text \<open>
  The encoder: its configuration, the compressor it selected, the stereo buffer (its
  bytes and its \<open>size()\<close>) and the statistics. The stereo processor it selects is always
  the CPU one, since \<open>CUDAStereoProcessor::init\<close> returns false.
\<close>

record VRFrameEncoder =
  enc_config :: EncoderConfig
  enc_jpeg :: jpeg_backend
  enc_stereo_buffer :: mem
  enc_stereo_size :: size_t
  enc_stats :: EncoderStats

definition VRFrameEncoder_init :: "jpeg_platform \<Rightarrow> EncoderConfig \<Rightarrow> VRFrameEncoder" where
  "VRFrameEncoder_init pl config =
     \<lparr>enc_config = config, enc_jpeg = AutoJPEGEncoder_init pl,
      enc_stereo_buffer = (\<lambda>_. 0), enc_stereo_size = 0,
      enc_stats = \<lparr>frames_encoded = 0, bytes_encoded = 0,
                    compression_ratio = Quot (Flt 0 0)\<rparr>\<rparr>"

definition update_config :: "VRFrameEncoder \<Rightarrow> EncoderConfig \<Rightarrow> VRFrameEncoder" where
  "update_config enc config = enc\<lparr>enc_config := config\<rparr>"

text \<open>
  \<open>VRFrameEncoder::encode\<close>: the size it returns, the request it made to the compressor,
  and the encoder afterwards.
\<close>

definition encode ::
  "codec \<Rightarrow> VRFrameEncoder \<Rightarrow> mem \<Rightarrow> u32 \<Rightarrow> u32 \<Rightarrow> u32 \<Rightarrow> u32
     \<Rightarrow> size_t \<times> jpeg_request \<times> VRFrameEncoder" where
  "encode lib enc input width' height' pitch channels =
     (let config = enc_config enc;
          (ow1, oh1) =
            (if f32_less (downscale_factor config) (Finite (Flt 1 0))
             then (f32_to_u32 (f32_mul (f32_of_u32 width') (downscale_factor config)),
                   f32_to_u32 (f32_mul (f32_of_u32 height') (downscale_factor config)))
             else (width', height'));
          (ow2, oh2) =
            (if output_width config > 0 \<and> output_height config > 0
             then (output_width config, output_height config)
             else (ow1, oh1));
          out_width = (ow2 div 2) * 2;
          out_height = (oh2 div 2) * 2;
          output_pitch = out_width * 3;
          stereo_size = (ucast (output_pitch * out_height) :: size_t);
          size1 = (if enc_stereo_size enc < stereo_size then stereo_size
                   else enc_stereo_size enc);
          (result_pitch, buffer1) =
            (if vr_enabled config
             then process_scaled input width' height' pitch channels
                    (enc_stereo_buffer enc) out_width out_height
                    (downscale_factor config) (eye_separation config)
             else (0, enc_stereo_buffer enc));
          rq = (if vr_enabled config \<and> result_pitch > 0
                then \<lparr>jr_input = buffer1, jr_width = out_width, jr_height = out_height,
                      jr_pitch = output_pitch, jr_channels = 3,
                      jr_quality = jpeg_quality config\<rparr>
                else \<lparr>jr_input = input, jr_width = width', jr_height = height',
                      jr_pitch = pitch, jr_channels = channels,
                      jr_quality = jpeg_quality config\<rparr>);
          encoded_size = jpeg_encode lib (enc_jpeg enc) rq;
          raw_size = (ucast (jr_width rq * jr_height rq * jr_channels rq) :: size_t);
          stats = \<lparr>frames_encoded = frames_encoded (enc_stats enc) + 1,
                   bytes_encoded = bytes_encoded (enc_stats enc) + encoded_size,
                   compression_ratio =
                     f64_div (f64_of_size_t raw_size) (f64_of_size_t encoded_size)\<rparr>
      in (encoded_size, rq,
          enc\<lparr>enc_stereo_buffer := buffer1, enc_stereo_size := size1, enc_stats := stats\<rparr>))"


section \<open>Orchestrator: the quality setters of \<open>src/core/vr_streamer_app.cpp\<close>\<close>

text \<open>
  \<open>std::clamp(v, lo, hi)\<close> is \<open>v < lo ? lo : hi < v ? hi : v\<close>, on \<open>u32\<close> and on \<open>f32\<close>.
\<close>

definition clamp_u32 :: "u32 \<Rightarrow> u32 \<Rightarrow> u32 \<Rightarrow> u32" where
  "clamp_u32 v lo hi = (if v < lo then lo else if hi < v then hi else v)"

definition clamp_f32 :: "f32 \<Rightarrow> f32 \<Rightarrow> f32 \<Rightarrow> f32" where
  "clamp_f32 v lo hi = (if f32_less v lo then lo else if f32_less hi v then hi else v)"

text \<open>
  The members of \<open>VRStreamerApp\<close> that the setters read and write: the configuration and
  the encoder (null before \<open>init\<close>). \<open>app_errors\<close> collects the messages handed to the
  error callback \<open>on_error_\<close>.
\<close>

record VRStreamerApp =
  app_config :: Config
  app_encoder :: "VRFrameEncoder option"
  app_errors :: "string list"

definition push_encoder_config :: "VRStreamerApp \<Rightarrow> VRStreamerApp" where
  "push_encoder_config app =
     (case app_encoder app of
        None \<Rightarrow> app
      | Some enc \<Rightarrow> app\<lparr>app_encoder := Some (update_config enc (encoder (app_config app)))\<rparr>)"

definition set_quality :: "VRStreamerApp \<Rightarrow> u32 \<Rightarrow> VRStreamerApp" where
  "set_quality app quality =
     push_encoder_config
       (app\<lparr>app_config := (app_config app)
              \<lparr>encoder := (encoder (app_config app))
                 \<lparr>jpeg_quality := clamp_u32 quality 1 100\<rparr>\<rparr>\<rparr>)"

definition set_downscale :: "VRStreamerApp \<Rightarrow> f32 \<Rightarrow> VRStreamerApp" where
  "set_downscale app factor =
     push_encoder_config
       (app\<lparr>app_config := (app_config app)
              \<lparr>encoder := (encoder (app_config app))
                 \<lparr>downscale_factor := clamp_f32 factor (f32_lit 1 10) (Finite (Flt 1 0))\<rparr>\<rparr>\<rparr>)"

definition set_quality_preset :: "VRStreamerApp \<Rightarrow> QualityPreset \<Rightarrow> VRStreamerApp" where
  "set_quality_preset app preset =
     push_encoder_config (app\<lparr>app_config := apply_preset (app_config app) preset\<rparr>)"


section \<open>Capture source and its manager: \<open>src/capture/dxgi_capture.cpp\<close>\<close>

text \<open>
  The platform calls that decide whether an initialization succeeds: creating the
  Direct3D device, reaching the adapter, enumerating an output by its index, duplicating
  it, creating the staging texture, and the window queries. A window handle is a number,
  0 for the null handle.
\<close>

type_synonym HWND = u64

datatype acquire_result = New_Frame | Wait_Timeout | Access_Lost | Acquire_Failed

record capture_platform =
  device_ok :: bool
  adapter_ok :: bool
  output_exists :: "u32 \<Rightarrow> bool"
  output_size :: "u32 \<Rightarrow> u32 \<times> u32"
  duplicate_ok :: "u32 \<Rightarrow> bool"
  staging_ok :: bool
  is_window :: "HWND \<Rightarrow> bool"
  window_monitor :: "HWND \<Rightarrow> u32"
  next_frame :: acquire_result
  texture_ok :: bool

text \<open>
  \<open>DXGICapture\<close>: whether it holds a duplication, the monitor it was last initialized
  for, the window it is bound to, and its state. Statistics are left out.
\<close>

record DXGICapture =
  m_duplication :: bool
  m_monitor_index :: u32
  m_target_window :: HWND
  m_initialized :: bool
  m_width :: u32
  m_height :: u32
  m_frame_id :: u32

definition DXGICapture_new :: DXGICapture where
  "DXGICapture_new =
     \<lparr>m_duplication = False, m_monitor_index = 0, m_target_window = 0,
      m_initialized = False, m_width = 0, m_height = 0, m_frame_id = 0\<rparr>"

definition shutdown :: "DXGICapture \<Rightarrow> DXGICapture" where
  "shutdown c = c\<lparr>m_duplication := False, m_initialized := False, m_width := 0, m_height := 0\<rparr>"

definition create_duplication ::
  "capture_platform \<Rightarrow> u32 \<Rightarrow> DXGICapture \<Rightarrow> bool \<times> DXGICapture" where
  "create_duplication pf monitor_index' c =
     (if \<not> adapter_ok pf then (False, c)
      else if \<not> output_exists pf monitor_index' then (False, c)
      else let c1 = c\<lparr>m_width := fst (output_size pf monitor_index'),
                       m_height := snd (output_size pf monitor_index')\<rparr>
           in if \<not> duplicate_ok pf monitor_index' then (False, c1)
              else (True, c1\<lparr>m_duplication := True\<rparr>))"

definition DXGICapture_init ::
  "capture_platform \<Rightarrow> u32 \<Rightarrow> DXGICapture \<Rightarrow> bool \<times> DXGICapture" where
  "DXGICapture_init pf monitor_index' c =
     (let c1 = (shutdown c)\<lparr>m_monitor_index := monitor_index', m_target_window := 0\<rparr>
      in if \<not> device_ok pf then (False, c1)
         else let (ok, c2) = create_duplication pf monitor_index' c1
              in if \<not> ok then (False, c2)
                 else if \<not> staging_ok pf then (False, c2)
                 else (True, c2\<lparr>m_initialized := True, m_frame_id := 0\<rparr>))"

definition init_window ::
  "capture_platform \<Rightarrow> HWND \<Rightarrow> DXGICapture \<Rightarrow> bool \<times> DXGICapture" where
  "init_window pf hwnd c =
     (if \<not> is_window pf hwnd then (False, c)
      else let (ok, c1) = DXGICapture_init pf (window_monitor pf hwnd) c
           in if \<not> ok then (False, c1)
              else (True, c1\<lparr>m_target_window := hwnd\<rparr>))"

definition reinit_duplication :: "capture_platform \<Rightarrow> DXGICapture \<Rightarrow> bool \<times> DXGICapture" where
  "reinit_duplication pf c = create_duplication pf (m_monitor_index c) (c\<lparr>m_duplication := False\<rparr>)"

definition capture_frame :: "capture_platform \<Rightarrow> DXGICapture \<Rightarrow> bool \<times> DXGICapture" where
  "capture_frame pf c =
     (if \<not> m_initialized c \<or> \<not> m_duplication c then (False, c)
      else case next_frame pf of
             Wait_Timeout \<Rightarrow> (False, c)
           | Access_Lost \<Rightarrow> (False, snd (reinit_duplication pf c))
           | Acquire_Failed \<Rightarrow> (False, c)
           | New_Frame \<Rightarrow>
               if \<not> texture_ok pf then (False, c)
               else (True, c\<lparr>m_frame_id := m_frame_id c + 1\<rparr>))"

text \<open>
  \<open>CaptureManager\<close>. Of the selected window only the handle is kept (the title, the
  class name and the rectangle are for display).
\<close>

record CaptureManager =
  m_capture :: DXGICapture
  m_selected_window :: HWND
  m_use_window_capture :: bool
  m_recovery_attempts :: u32

definition MAX_RECOVERY_ATTEMPTS :: u32 where
  "MAX_RECOVERY_ATTEMPTS = 3"

definition CaptureManager_new :: CaptureManager where
  "CaptureManager_new =
     \<lparr>m_capture = DXGICapture_new, m_selected_window = 0, m_use_window_capture = False,
      m_recovery_attempts = 0\<rparr>"

definition CaptureManager_init :: "capture_platform \<Rightarrow> CaptureManager \<Rightarrow> bool \<times> CaptureManager" where
  "CaptureManager_init pf m =
     (let (ok, c) = DXGICapture_init pf 0 (m_capture m) in (ok, m\<lparr>m_capture := c\<rparr>))"

definition set_monitor ::
  "capture_platform \<Rightarrow> u32 \<Rightarrow> CaptureManager \<Rightarrow> bool \<times> CaptureManager" where
  "set_monitor pf monitor_index' m =
     (let m1 = m\<lparr>m_use_window_capture := False, m_selected_window := 0\<rparr>;
          (ok, c) = DXGICapture_init pf monitor_index' (m_capture m1)
      in (ok, m1\<lparr>m_capture := c\<rparr>))"

definition set_window ::
  "capture_platform \<Rightarrow> HWND \<Rightarrow> CaptureManager \<Rightarrow> bool \<times> CaptureManager" where
  "set_window pf hwnd m =
     (let m1 = m\<lparr>m_use_window_capture := True, m_selected_window := hwnd\<rparr>;
          (ok, c) = init_window pf hwnd (m_capture m1)
      in (ok, m1\<lparr>m_capture := c\<rparr>))"

text \<open>\<open>CaptureManager::capture\<close>, with its recovery of a source that is not initialized.\<close>

definition CaptureManager_capture ::
  "capture_platform \<Rightarrow> CaptureManager \<Rightarrow> bool \<times> CaptureManager" where
  "CaptureManager_capture pf m =
     (if \<not> m_initialized (m_capture m)
      then if m_recovery_attempts m \<ge> MAX_RECOVERY_ATTEMPTS then (False, m)
           else let m1 = m\<lparr>m_recovery_attempts := m_recovery_attempts m + 1\<rparr>;
                    (ok, c) =
                      (if m_use_window_capture m1 \<and> m_selected_window m1 \<noteq> 0
                       then init_window pf (m_selected_window m1) (m_capture m1)
                       else DXGICapture_init pf 0 (m_capture m1))
                in if \<not> ok then (False, m1\<lparr>m_capture := c\<rparr>)
                   else let (got, c') = capture_frame pf c
                        in (got, m1\<lparr>m_capture := c', m_recovery_attempts := 0\<rparr>)
      else let (got, c') = capture_frame pf (m_capture m)
           in (got, m\<lparr>m_capture := c'\<rparr>))"


section \<open>Broadcast server: accepting connections, \<open>src/network/websocket_server.cpp\<close>\<close>

text \<open>
  A session is known by its client id, \<open>address:port\<close>. The registry \<open>sessions_\<close> is a map
  from ids to sessions: an association list with one entry per id. A session that
  \<open>on_accept\<close> has started is owned by its pending handshake until the handshake
  completes; only then does it register. \<open>handshakes\<close> are the sessions in that state,
  \<open>rejected\<close> the ids of the sockets that \<open>on_accept\<close> closed.
\<close>

record ClientInfo =
  ci_id :: string
  ci_address :: string
  ci_port :: u16

record StreamingServer =
  srv_config :: NetworkConfig
  m_sessions :: "(string \<times> ClientInfo) list"
  m_running :: bool
  handshakes :: "ClientInfo list"
  rejected :: "string list"

definition StreamingServer_init :: "NetworkConfig \<Rightarrow> StreamingServer" where
  "StreamingServer_init config =
     \<lparr>srv_config = config, m_sessions = [], m_running = False, handshakes = [], rejected = []\<rparr>"

definition client_count :: "StreamingServer \<Rightarrow> u32" where
  "client_count srv = of_nat (length (m_sessions srv))"

text \<open>\<open>sessions_[id] = session\<close> and \<open>sessions_.erase(id)\<close>.\<close>

fun map_assign :: "(string \<times> 'v) list \<Rightarrow> string \<Rightarrow> 'v \<Rightarrow> (string \<times> 'v) list" where
  "map_assign [] k v = [(k, v)]"
| "map_assign ((k', v') # rest) k v =
     (if k' = k then (k, v) # rest else (k', v') # map_assign rest k v)"

fun map_erase :: "(string \<times> 'v) list \<Rightarrow> string \<Rightarrow> (string \<times> 'v) list" where
  "map_erase [] k = []"
| "map_erase ((k', v') # rest) k = (if k' = k then rest else (k', v') # map_erase rest k)"

definition register_session :: "StreamingServer \<Rightarrow> ClientInfo \<Rightarrow> StreamingServer" where
  "register_session srv session = srv\<lparr>m_sessions := map_assign (m_sessions srv) (ci_id session) session\<rparr>"

definition unregister_session :: "StreamingServer \<Rightarrow> string \<Rightarrow> StreamingServer" where
  "unregister_session srv id' = srv\<lparr>m_sessions := map_erase (m_sessions srv) id'\<rparr>"

text \<open>
  \<open>StreamingServer::on_accept(ec, socket)\<close>: \<open>None\<close> is an accept error, \<open>Some info\<close> an
  accepted socket with the remote endpoint that names the client.
\<close>

definition on_accept :: "StreamingServer \<Rightarrow> ClientInfo option \<Rightarrow> StreamingServer" where
  "on_accept srv sock =
     (case sock of
        None \<Rightarrow> srv
      | Some info \<Rightarrow>
          if client_count srv < max_clients (srv_config srv)
          then srv\<lparr>handshakes := handshakes srv @ [info]\<rparr>
          else srv\<lparr>rejected := rejected srv @ [ci_id info]\<rparr>)"

text \<open>
  \<open>WebSocketSession::on_accept(ec)\<close>, the completion of the handshake of a started
  session: on an error the session is dropped, else it registers.
\<close>

definition session_on_accept :: "StreamingServer \<Rightarrow> string \<Rightarrow> bool \<Rightarrow> StreamingServer" where
  "session_on_accept srv id' ec =
     (case find (\<lambda>s. ci_id s = id') (handshakes srv) of
        None \<Rightarrow> srv
      | Some session \<Rightarrow>
          let srv1 = srv\<lparr>handshakes := filter (\<lambda>s. ci_id s \<noteq> id') (handshakes srv)\<rparr>
          in if ec then srv1 else register_session srv1 session)"

definition session_close :: "StreamingServer \<Rightarrow> string \<Rightarrow> StreamingServer" where
  "session_close srv id' = unregister_session srv id'"

datatype server_event =
    Accept "ClientInfo option"
  | Handshake_Done string bool
  | Close string

fun server_step :: "StreamingServer \<Rightarrow> server_event \<Rightarrow> StreamingServer" where
  "server_step srv (Accept sock) = on_accept srv sock"
| "server_step srv (Handshake_Done id' ec) = session_on_accept srv id' ec"
| "server_step srv (Close id') = session_close srv id'"

definition server_run :: "NetworkConfig \<Rightarrow> server_event list \<Rightarrow> StreamingServer" where
  "server_run config evs = foldl server_step (StreamingServer_init config) evs"


section \<open>Configuration file: \<open>src/core/config.cpp\<close>\<close>

subsection \<open>What the streams and the string conversions of the standard library do\<close>

definition dquote :: char where
  "dquote = CHR 0x22"

definition newline :: char where
  "newline = CHR 0x0A"

definition carriage_return :: char where
  "carriage_return = CHR 0x0D"

text \<open>\<open>operator<<\<close> on the integer types prints decimal digits.\<close>

definition digit_char :: "nat \<Rightarrow> char" where
  "digit_char d = char_of (48 + d)"

fun dec :: "nat \<Rightarrow> string" where
  "dec n = (if n < 10 then [digit_char n] else dec (n div 10) @ [digit_char (n mod 10)])"

declare dec.simps [simp del]

definition show_u32 :: "u32 \<Rightarrow> string" where
  "show_u32 w = dec (unat w)"

definition show_u16 :: "u16 \<Rightarrow> string" where
  "show_u16 w = dec (unat w)"

definition show_i32 :: "i32 \<Rightarrow> string" where
  "show_i32 w = (if sint w < 0 then ''-'' @ dec (nat (- sint w)) else dec (nat (sint w)))"

text \<open>
  \<open>std::stoi\<close>: white space, an optional sign, then decimal digits up to the first
  character that is none; it throws \<open>std::invalid_argument\<close> when there is no digit and
  \<open>std::out_of_range\<close> when the number is no \<open>int\<close>.
\<close>

datatype parse_error = Invalid_Argument | Out_Of_Range

definition is_space :: "char \<Rightarrow> bool" where
  "is_space ch \<longleftrightarrow> ch = CHR '' '' \<or> (9 \<le> (of_char ch :: nat) \<and> (of_char ch :: nat) \<le> 13)"

definition is_digit :: "char \<Rightarrow> bool" where
  "is_digit ch \<longleftrightarrow> 48 \<le> (of_char ch :: nat) \<and> (of_char ch :: nat) \<le> 57"

fun digits_value :: "nat \<Rightarrow> string \<Rightarrow> nat" where
  "digits_value acc [] = acc"
| "digits_value acc (ch # rest) =
     (if is_digit ch then digits_value (acc * 10 + (of_char ch - 48)) rest else acc)"

definition stoi :: "string \<Rightarrow> parse_error + int" where
  "stoi s =
     (let s1 = dropWhile is_space s;
          negative = (s1 \<noteq> [] \<and> hd s1 = CHR ''-'');
          s2 = (if s1 \<noteq> [] \<and> (hd s1 = CHR ''-'' \<or> hd s1 = CHR ''+'') then tl s1 else s1)
      in if s2 = [] \<or> \<not> is_digit (hd s2) then Inl Invalid_Argument
         else let n = int (digits_value 0 s2);
                  v = (if negative then - n else n)
              in if v < - (2 ^ 31) \<or> 2 ^ 31 - 1 < v then Inl Out_Of_Range else Inr v)"

text \<open>
  The text that \<open>operator<<\<close> writes for a \<open>float\<close> (six significant digits in the default
  format) and the value that \<open>std::stof\<close> reads from a text are the standard library's:
  the writer and the reader take them as the parameter \<open>io\<close>.
\<close>

record float_io =
  show_f32 :: "f32 \<Rightarrow> string"
  stof :: "string \<Rightarrow> parse_error + f32"

text \<open>
  One instance, for the values 0, 0.5 and 1 only: they are written as \<open>0\<close>, \<open>0.5\<close> and
  \<open>1\<close>, and these texts are read back as the same values. It says nothing about the
  library on other values: it writes them as \<open>?\<close> and reads no other text.
\<close>

definition small_float_io :: float_io where
  "small_float_io =
     \<lparr>show_f32 = (\<lambda>x. if x = Finite (Flt 1 (- 1)) then ''0.5''
                        else if x = Finite (Flt 1 0) then ''1''
                        else if x = Finite (Flt 0 0) then ''0''
                        else ''?''),
      stof = (\<lambda>s. if s = ''0.5'' then Inr (Finite (Flt 1 (- 1)))
                   else if s = ''1'' then Inr (Finite (Flt 1 0))
                   else if s = ''0'' then Inr (Finite (Flt 0 0))
                   else Inl Invalid_Argument)\<rparr>"

text \<open>
  The files: the text of every file that can be opened for reading, and the paths that
  can be opened for writing.
\<close>

record filesystem =
  files :: "string \<Rightarrow> string option"
  writable :: "string \<Rightarrow> bool"


subsection \<open>\<open>Config::save\<close>\<close>

definition show_bool :: "bool \<Rightarrow> string" where
  "show_bool b = (if b then ''true'' else ''false'')"

fun show_method :: "Method \<Rightarrow> string" where
  "show_method JPEG = ''jpeg''"
| "show_method NVJPEG = ''nvjpeg''"
| "show_method TURBOJPEG = ''turbojpeg''"
| "show_method H264 = ''h264''"
| "show_method RAW = ''raw''"

text \<open>A line \<open>"  key: " << value\<close>, and the same with the value in double quotes.\<close>

definition kv :: "string \<Rightarrow> string \<Rightarrow> string" where
  "kv key v = ''  '' @ key @ '': '' @ v"

definition kv_quoted :: "string \<Rightarrow> string \<Rightarrow> string" where
  "kv_quoted key v = ''  '' @ key @ '': '' @ [dquote] @ v @ [dquote]"

definition save_lines :: "float_io \<Rightarrow> Config \<Rightarrow> string list" where
  "save_lines io c =
     [''# VR Streamer Configuration'', '''',
      ''capture:'',
      kv ''target_fps'' (show_u32 (target_fps (capture c))),
      kv ''monitor_index'' (show_u32 (monitor_index (capture c))),
      kv ''capture_cursor'' (show_bool (capture_cursor (capture c))),
      kv ''use_gpu_capture'' (show_bool (use_gpu_capture (capture c))),
      kv ''frame_buffer_count'' (show_u32 (frame_buffer_count (capture c))),
      kv ''wait_for_vsync'' (show_bool (wait_for_vsync (capture c))),
      '''',
      ''encoder:'',
      kv ''jpeg_quality'' (show_u32 (jpeg_quality (encoder c))),
      kv ''downscale_factor'' (show_f32 io (downscale_factor (encoder c))),
      kv ''output_width'' (show_u32 (output_width (encoder c))),
      kv ''output_height'' (show_u32 (output_height (encoder c))),
      kv ''compression_method'' (show_method (compression_method (encoder c))),
      kv ''vr_enabled'' (show_bool (vr_enabled (encoder c))),
      kv ''eye_separation'' (show_f32 io (eye_separation (encoder c))),
      kv ''use_gpu'' (show_bool (use_gpu (encoder c))),
      kv ''gpu_device_id'' (show_i32 (gpu_device_id (encoder c))),
      kv ''use_nvenc'' (show_bool (use_nvenc (encoder c))),
      kv ''use_nvjpeg'' (show_bool (use_nvjpeg (encoder c))),
      kv ''h264_bitrate'' (show_u32 (h264_bitrate (encoder c))),
      kv ''h264_gop_length'' (show_u32 (h264_gop_length (encoder c))),
      kv ''h264_low_latency'' (show_bool (h264_low_latency (encoder c))),
      '''',
      ''network:'',
      kv_quoted ''host'' (host (network c)),
      kv ''port'' (show_u16 (port (network c))),
      kv ''http_port'' (show_u16 (http_port (network c))),
      kv_quoted ''static_ip'' (static_ip (network c)),
      kv ''max_clients'' (show_u32 (max_clients (network c))),
      kv ''send_buffer_size'' (show_u32 (send_buffer_size (network c))),
      kv ''ping_interval'' (show_f32 io (ping_interval (network c))),
      kv ''use_tcp_nodelay'' (show_bool (use_tcp_nodelay (network c))),
      kv ''use_cork'' (show_bool (use_cork (network c)))]"

definition save_text :: "float_io \<Rightarrow> Config \<Rightarrow> string" where
  "save_text io c = concat (map (\<lambda>line. line @ [newline]) (save_lines io c))"

text \<open>\<open>Config::save\<close>: false when the file cannot be opened, else the file is written.\<close>

definition Config_save ::
  "float_io \<Rightarrow> filesystem \<Rightarrow> string \<Rightarrow> Config \<Rightarrow> bool \<times> filesystem" where
  "Config_save io fs filepath c =
     (if \<not> writable fs filepath then (False, fs)
      else (True, fs\<lparr>files := (files fs)(filepath := Some (save_text io c))\<rparr>))"


subsection \<open>\<open>Config::load\<close>\<close>

text \<open>The lines that \<open>std::getline\<close> delivers, one call after the other.\<close>

fun split_lines :: "string \<Rightarrow> string \<Rightarrow> string list" where
  "split_lines acc [] = (if acc = [] then [] else [rev acc])"
| "split_lines acc (ch # rest) =
     (if ch = newline then rev acc # split_lines [] rest else split_lines (ch # acc) rest)"

definition getlines :: "string \<Rightarrow> string list" where
  "getlines text = split_lines [] text"

definition parse_bool :: "string \<Rightarrow> bool" where
  "parse_bool s \<longleftrightarrow> s = ''true'' \<or> s = ''yes'' \<or> s = ''1''"

text \<open>
  The lambda \<open>parse_value\<close>: what follows the first colon, without the blanks and double
  quotes at its front and the blanks, double quotes and carriage returns at its back.
\<close>

definition parse_value :: "string \<Rightarrow> string" where
  "parse_value line =
     (case dropWhile (\<lambda>ch. ch \<noteq> CHR '':'') line of
        [] \<Rightarrow> []
      | colon # value \<Rightarrow>
          rev (dropWhile (\<lambda>ch. ch = CHR '' '' \<or> ch = dquote \<or> ch = carriage_return)
                 (rev (dropWhile (\<lambda>ch. ch = CHR '' '' \<or> ch = dquote) value))))"

text \<open>\<open>line.find(key) != std::string::npos\<close>.\<close>

definition found :: "string \<Rightarrow> string \<Rightarrow> bool" where
  "found line key \<longleftrightarrow> sublist key line"

text \<open>
  An assignment \<open>field = std::stoi(value)\<close> or \<open>field = std::stof(value)\<close>: the
  exception of the conversion leaves \<open>load\<close>.
\<close>

definition with_int :: "string \<Rightarrow> (int \<Rightarrow> 'a) \<Rightarrow> parse_error + 'a" where
  "with_int value assign = (case stoi value of Inl e \<Rightarrow> Inl e | Inr n \<Rightarrow> Inr (assign n))"

definition with_float :: "float_io \<Rightarrow> string \<Rightarrow> (f32 \<Rightarrow> 'a) \<Rightarrow> parse_error + 'a" where
  "with_float io value assign = (case stof io value of Inl e \<Rightarrow> Inl e | Inr x \<Rightarrow> Inr (assign x))"

definition load_capture :: "string \<Rightarrow> string \<Rightarrow> CaptureConfig \<Rightarrow> parse_error + CaptureConfig" where
  "load_capture line value c =
     (if found line ''target_fps:'' then with_int value (\<lambda>n. c\<lparr>target_fps := word_of_int n\<rparr>)
      else if found line ''monitor_index:''
        then with_int value (\<lambda>n. c\<lparr>monitor_index := word_of_int n\<rparr>)
      else if found line ''capture_cursor:''
        then Inr (c\<lparr>capture_cursor := parse_bool value\<rparr>)
      else if found line ''use_gpu_capture:''
        then Inr (c\<lparr>use_gpu_capture := parse_bool value\<rparr>)
      else if found line ''frame_buffer_count:''
        then with_int value (\<lambda>n. c\<lparr>frame_buffer_count := word_of_int n\<rparr>)
      else if found line ''wait_for_vsync:''
        then Inr (c\<lparr>wait_for_vsync := parse_bool value\<rparr>)
      else Inr c)"

definition load_method :: "string \<Rightarrow> EncoderConfig \<Rightarrow> EncoderConfig" where
  "load_method value c =
     (if value = ''jpeg'' then c\<lparr>compression_method := JPEG\<rparr>
      else if value = ''nvjpeg'' then c\<lparr>compression_method := NVJPEG\<rparr>
      else if value = ''turbojpeg'' then c\<lparr>compression_method := TURBOJPEG\<rparr>
      else if value = ''h264'' then c\<lparr>compression_method := H264\<rparr>
      else if value = ''raw'' then c\<lparr>compression_method := RAW\<rparr>
      else c)"

definition load_encoder ::
  "float_io \<Rightarrow> string \<Rightarrow> string \<Rightarrow> EncoderConfig \<Rightarrow> parse_error + EncoderConfig" where
  "load_encoder io line value c =
     (if found line ''jpeg_quality:'' then with_int value (\<lambda>n. c\<lparr>jpeg_quality := word_of_int n\<rparr>)
      else if found line ''downscale_factor:''
        then with_float io value (\<lambda>x. c\<lparr>downscale_factor := x\<rparr>)
      else if found line ''output_width:''
        then with_int value (\<lambda>n. c\<lparr>output_width := word_of_int n\<rparr>)
      else if found line ''output_height:''
        then with_int value (\<lambda>n. c\<lparr>output_height := word_of_int n\<rparr>)
      else if found line ''compression_method:'' then Inr (load_method value c)
      else if found line ''vr_enabled:'' then Inr (c\<lparr>vr_enabled := parse_bool value\<rparr>)
      else if found line ''eye_separation:''
        then with_float io value (\<lambda>x. c\<lparr>eye_separation := x\<rparr>)
      else if found line ''use_gpu:'' then Inr (c\<lparr>use_gpu := parse_bool value\<rparr>)
      else if found line ''gpu_device_id:''
        then with_int value (\<lambda>n. c\<lparr>gpu_device_id := word_of_int n\<rparr>)
      else if found line ''use_nvenc:'' then Inr (c\<lparr>use_nvenc := parse_bool value\<rparr>)
      else if found line ''use_nvjpeg:'' then Inr (c\<lparr>use_nvjpeg := parse_bool value\<rparr>)
      else if found line ''h264_bitrate:''
        then with_int value (\<lambda>n. c\<lparr>h264_bitrate := word_of_int n\<rparr>)
      else if found line ''h264_gop_length:''
        then with_int value (\<lambda>n. c\<lparr>h264_gop_length := word_of_int n\<rparr>)
      else if found line ''h264_low_latency:''
        then Inr (c\<lparr>h264_low_latency := parse_bool value\<rparr>)
      else Inr c)"

definition load_network ::
  "float_io \<Rightarrow> string \<Rightarrow> string \<Rightarrow> NetworkConfig \<Rightarrow> parse_error + NetworkConfig" where
  "load_network io line value c =
     (if found line ''host:'' then Inr (c\<lparr>host := value\<rparr>)
      else if found line ''http_port:''
        then with_int value (\<lambda>n. c\<lparr>http_port := word_of_int n\<rparr>)
      else if found line ''port:'' then with_int value (\<lambda>n. c\<lparr>port := word_of_int n\<rparr>)
      else if found line ''static_ip:'' then Inr (c\<lparr>static_ip := value\<rparr>)
      else if found line ''max_clients:''
        then with_int value (\<lambda>n. c\<lparr>max_clients := word_of_int n\<rparr>)
      else if found line ''send_buffer_size:''
        then with_int value (\<lambda>n. c\<lparr>send_buffer_size := word_of_int n\<rparr>)
      else if found line ''ping_interval:''
        then with_float io value (\<lambda>x. c\<lparr>ping_interval := x\<rparr>)
      else if found line ''use_tcp_nodelay:''
        then Inr (c\<lparr>use_tcp_nodelay := parse_bool value\<rparr>)
      else if found line ''use_cork:'' then Inr (c\<lparr>use_cork := parse_bool value\<rparr>)
      else Inr c)"

text \<open>The body of the \<open>while (std::getline(file, line))\<close> loop.\<close>

definition load_line ::
  "float_io \<Rightarrow> string \<times> Config \<Rightarrow> string \<Rightarrow> parse_error + string \<times> Config" where
  "load_line io st line =
     (let section' = fst st; config = snd st
      in if line = [] \<or> hd line = CHR ''#'' then Inr st
         else if hd line \<noteq> CHR '' '' \<and> last line = CHR '':'' then Inr (butlast line, config)
         else let value = parse_value line
              in if value = [] then Inr st
                 else if section' = ''capture''
                   then (case load_capture line value (capture config) of
                           Inl e \<Rightarrow> Inl e
                         | Inr cap \<Rightarrow> Inr (section', config\<lparr>capture := cap\<rparr>))
                 else if section' = ''encoder''
                   then (case load_encoder io line value (encoder config) of
                           Inl e \<Rightarrow> Inl e
                         | Inr enc \<Rightarrow> Inr (section', config\<lparr>encoder := enc\<rparr>))
                 else if section' = ''network''
                   then (case load_network io line value (network config) of
                           Inl e \<Rightarrow> Inl e
                         | Inr net \<Rightarrow> Inr (section', config\<lparr>network := net\<rparr>))
                 else Inr st)"

fun load_lines ::
  "float_io \<Rightarrow> string \<times> Config \<Rightarrow> string list \<Rightarrow> parse_error + string \<times> Config" where
  "load_lines io st [] = Inr st"
| "load_lines io st (line # rest) =
     (case load_line io st line of
        Inl e \<Rightarrow> Inl e
      | Inr st' \<Rightarrow> load_lines io st' rest)"

definition load_text :: "float_io \<Rightarrow> string \<Rightarrow> parse_error + Config" where
  "load_text io text =
     (case load_lines io ('''', Config_new) (getlines text) of
        Inl e \<Rightarrow> Inl e
      | Inr st \<Rightarrow> Inr (snd st))"

text \<open>
  \<open>Config::load\<close>: the default configuration when the file cannot be opened, else what
  the lines of the file make of \<open>Config config;\<close>, or the exception of a conversion.
\<close>

definition Config_load :: "float_io \<Rightarrow> filesystem \<Rightarrow> string \<Rightarrow> parse_error + Config" where
  "Config_load io fs filepath =
     (case files fs filepath of
        None \<Rightarrow> Inr default_config
      | Some text \<Rightarrow> load_text io text)"


subsection \<open>Configurations that the file format holds\<close>

text \<open>
  A value that a line holds as it is written: a text that is not empty and has no colon,
  line break, blank, double quote or carriage return. A text that keeps its ends between
  double quotes: not empty, within one line, not beginning with a blank or a double quote
  and not ending with a blank, a double quote or a carriage return.
\<close>

definition token :: "string \<Rightarrow> bool" where
  "token v \<longleftrightarrow> v \<noteq> [] \<and>
     list_all (\<lambda>ch. ch \<noteq> CHR '':'' \<and> ch \<noteq> newline \<and> ch \<noteq> CHR '' '' \<and> ch \<noteq> dquote
                   \<and> ch \<noteq> carriage_return) v"

definition quotable :: "string \<Rightarrow> bool" where
  "quotable v \<longleftrightarrow> v \<noteq> [] \<and> hd v \<noteq> CHR '' '' \<and> hd v \<noteq> dquote
     \<and> last v \<noteq> CHR '' '' \<and> last v \<noteq> dquote \<and> last v \<noteq> carriage_return
     \<and> list_all (\<lambda>ch. ch \<noteq> newline) v"

text \<open>
  A \<open>u32\<close> that is an \<open>int\<close>, which \<open>std::stoi\<close> requires; and a \<open>float\<close> that is not NaN
  (NaN does not compare equal to itself), that the stream writes as a value of a line, and
  that \<open>std::stof\<close> reads back from that text.
\<close>

definition fits_int :: "u32 \<Rightarrow> bool" where
  "fits_int w \<longleftrightarrow> unat w < 2 ^ 31"

definition reads_back :: "float_io \<Rightarrow> f32 \<Rightarrow> bool" where
  "reads_back io x \<longleftrightarrow> x \<noteq> NaN \<and> token (show_f32 io x) \<and> stof io (show_f32 io x) = Inr x"

text \<open>
  The configurations that \<open>load\<close> reads back from the file that \<open>save\<close> writes. The
  keys \<open>host:\<close>, \<open>http_port:\<close> and \<open>port:\<close> are looked for in a line before
  \<open>static_ip:\<close> is.
\<close>

definition storable :: "float_io \<Rightarrow> Config \<Rightarrow> bool" where
  "storable io c \<longleftrightarrow>
     fits_int (target_fps (capture c)) \<and> fits_int (monitor_index (capture c))
     \<and> fits_int (frame_buffer_count (capture c))
     \<and> fits_int (jpeg_quality (encoder c)) \<and> fits_int (output_width (encoder c))
     \<and> fits_int (output_height (encoder c)) \<and> fits_int (h264_bitrate (encoder c))
     \<and> fits_int (h264_gop_length (encoder c))
     \<and> fits_int (max_clients (network c)) \<and> fits_int (send_buffer_size (network c))
     \<and> reads_back io (downscale_factor (encoder c))
     \<and> reads_back io (eye_separation (encoder c))
     \<and> reads_back io (ping_interval (network c))
     \<and> quotable (host (network c))
     \<and> (static_ip (network c) = []
          \<or> quotable (static_ip (network c))
            \<and> \<not> sublist ''host:'' (static_ip (network c))
            \<and> \<not> sublist ''port:'' (static_ip (network c)))"

text \<open>The configurations whose file has one line for every line that \<open>save\<close> writes.\<close>

definition writes_tokens :: "float_io \<Rightarrow> Config \<Rightarrow> bool" where
  "writes_tokens io c \<longleftrightarrow>
     token (show_f32 io (downscale_factor (encoder c)))
     \<and> token (show_f32 io (eye_separation (encoder c)))
     \<and> token (show_f32 io (ping_interval (network c)))
     \<and> (host (network c) = [] \<or> quotable (host (network c)))
     \<and> (static_ip (network c) = [] \<or> quotable (static_ip (network c)))"


chapter \<open>Properties\<close>

section \<open>Ring buffer\<close>

lemma is_power_of_2_mask:
  assumes "is_power_of_2 N"
  obtains k where "k < 64" and "N = 2 ^ k" and "MASK N = mask k"
  using assms by (auto simp: is_power_of_2_def MASK_def list_ex_iff mask_eq_exp_minus_1)

lemma unat_two_power_64: "k < 64 \<Longrightarrow> unat (2 ^ k :: 64 word) = 2 ^ k"
proof -
  assume k: "k < 64"
  have "uint (2 ^ k :: 64 word) = 2 ^ k"
    by (rule uint_2p) (use k in \<open>simp add: word_gt_0\<close>)
  then show ?thesis
    by (simp add: unat_eq_nat_uint nat_power_eq)
qed

lemma next_index_mod:
  assumes "is_power_of_2 N"
  shows "unat ((t + 1) AND MASK N) = (unat t + 1) mod unat N"
proof -
  from assms obtain k where k: "k < 64" "N = 2 ^ k" "MASK N = mask k"
    by (rule is_power_of_2_mask)
  have "unat ((t + 1) AND mask k) = unat (take_bit k (t + 1))"
    by (simp add: take_bit_eq_mask)
  also have "\<dots> = unat (t + 1) mod 2 ^ k"
    by (subst unsigned_take_bit_eq) (simp only: take_bit_eq_mod)
  also have "unat (t + 1) = (unat t + 1) mod 2 ^ 64"
    by (simp add: unat_word_ariths)
  also have "(unat t + 1) mod 2 ^ 64 mod 2 ^ k = (unat t + 1) mod 2 ^ k"
    by (rule mod_mod_cancel) (rule le_imp_power_dvd, use k(1) in simp)
  finally show ?thesis
    using k by (simp add: unat_two_power_64)
qed

text \<open>
  C6. For the ring of power-of-two capacity \<open>N \<ge> 2\<close>, in every state reached from the
  constructor by pushes, pops and clears: \<open>try_push\<close> returns false exactly when
  \<open>(tail + 1) mod N = head\<close>, and \<open>try_pop\<close> returns no element exactly when
  \<open>tail = head\<close>.
\<close>

theorem spsc_push_pop_refusal:
  assumes "is_power_of_2 N" and "2 \<le> N"
  shows "let q = queue_run N dflt ops
         in (fst (try_push N q item) = False
               \<longleftrightarrow> (unat (m_tail q) + 1) mod unat N = unat (m_head q))
          \<and> (fst (try_pop N q) = None \<longleftrightarrow> m_tail q = m_head q)"
proof -
  define q where "q = queue_run N dflt ops"
  have push: "fst (try_push N q item) = False
                \<longleftrightarrow> (unat (m_tail q) + 1) mod unat N = unat (m_head q)"
  proof -
    have "fst (try_push N q item) = False \<longleftrightarrow> (m_tail q + 1) AND MASK N = m_head q"
      by (simp add: try_push_def Let_def)
    also have "\<dots> \<longleftrightarrow> unat ((m_tail q + 1) AND MASK N) = unat (m_head q)"
      by (simp add: word_unat_eq_iff)
    also have "\<dots> \<longleftrightarrow> (unat (m_tail q) + 1) mod unat N = unat (m_head q)"
      by (simp only: next_index_mod [OF assms(1)])
    finally show ?thesis .
  qed
  have pop: "fst (try_pop N q) = None \<longleftrightarrow> m_tail q = m_head q"
    by (auto simp: try_pop_def Let_def)
  from push pop show ?thesis
    unfolding q_def Let_def by blast
qed

theorem spsc_push_pop_refusal_witness:
  "is_power_of_2 4 \<and> (2::size_t) \<le> 4
   \<and> (let q = queue_run 4 (0::nat) [Push 7, Push 8, Push 9]
      in (fst (try_push 4 q 10) = False
            \<longleftrightarrow> (unat (m_tail q) + 1) mod unat (4::size_t) = unat (m_head q))
       \<and> (fst (try_pop 4 q) = None \<longleftrightarrow> m_tail q = m_head q))"
proof -
  have p: "is_power_of_2 4"
    by (simp add: is_power_of_2_def list_ex_iff) (rule bexI [of _ 2], simp_all)
  have l: "(2::size_t) \<le> 4"
    by simp
  from p l spsc_push_pop_refusal [OF p l, of "0::nat" "[Push 7, Push 8, Push 9]" 10]
  show ?thesis by blast
qed


section \<open>Frame buffer pool\<close>

lemma free_count_release:
  "free_count p \<le> 2 * m_pool_size p \<Longrightarrow> free_count (release p buf) \<le> 2 * m_pool_size p"
proof -
  assume le: "free_count p \<le> 2 * m_pool_size p"
  have "(m_pool_size p * 2) mod 2 ^ 64 \<le> 2 * m_pool_size p"
    by (simp add: mult.commute)
  with le show ?thesis
    by (auto simp: release_def free_count_def split: option.splits)
qed

lemma pool_size_release [simp]: "m_pool_size (release p buf) = m_pool_size p"
  by (simp add: release_def split: option.splits)

lemma free_count_acquire:
  "free_count (snd (acquire p)) \<le> free_count p"
  by (simp add: acquire_def free_count_def split: list.splits)

lemma pool_size_acquire [simp]: "m_pool_size (snd (acquire p)) = m_pool_size p"
  by (simp add: acquire_def split: list.splits)

lemma pool_step_free_bound:
  assumes "free_count (pool w) \<le> 2 * m_pool_size (pool w)"
  shows "free_count (pool (pool_step w op)) \<le> 2 * m_pool_size (pool (pool_step w op))"
proof (cases op)
  case Acquire
  have "free_count (snd (acquire (pool w))) \<le> 2 * m_pool_size (pool w)"
    using free_count_acquire [of "pool w"] assms by linarith
  with Acquire show ?thesis
    by (simp add: case_prod_unfold Let_def)
next
  case (Release i)
  with assms show ?thesis
    by (simp add: free_count_release)
next
  case (Drop i)
  with assms show ?thesis by simp
qed

lemma pool_step_pool_size [simp]: "m_pool_size (pool (pool_step w op)) = m_pool_size (pool w)"
  by (cases op) (simp_all add: case_prod_unfold Let_def)

lemma foldl_pool_step_bound:
  "free_count (pool w) \<le> 2 * m_pool_size (pool w) \<Longrightarrow>
   free_count (pool (foldl pool_step w ops)) \<le> 2 * m_pool_size (pool w)"
proof (induction ops arbitrary: w)
  case Nil
  then show ?case by simp
next
  case (Cons op ops)
  have "free_count (pool (foldl pool_step (pool_step w op) ops))
          \<le> 2 * m_pool_size (pool (pool_step w op))"
    by (rule Cons.IH) (rule pool_step_free_bound [OF Cons.prems])
  then show ?case by simp
qed

text \<open>
  C4, as the specification states it: \<open>free_count + in_use_count \<le> 2 * pool_size\<close> at all
  times. It fails: \<open>acquire\<close> on an empty free list allocates a fresh buffer, so a pool
  of one buffer has three in use after three acquires.
\<close>

theorem pool_total_bound_counterexample:
  "\<not> (free_count (pool (pool_run 4096 1 [Acquire, Acquire, Acquire]))
        + in_use_count (pool_run 4096 1 [Acquire, Acquire, Acquire]) \<le> 2 * 1)"
  by (simp add: pool_run_def FrameBufferPool_init_def acquire_def free_count_def
      in_use_count_def)

text \<open>
  C4, amended: after every sequence of acquire, release and drop operations the free list
  holds at most \<open>2 * pool_size\<close> buffers. The buffers in use are not bounded by the pool.
\<close>

theorem pool_free_count_bound:
  "free_count (pool (pool_run buffer_size pool_size ops)) \<le> 2 * pool_size"
proof -
  let ?w = "\<lparr>pool = FrameBufferPool_init buffer_size pool_size, holders = []\<rparr>"
  have "free_count (pool ?w) \<le> 2 * m_pool_size (pool ?w)"
    by (simp add: free_count_def FrameBufferPool_init_def)
  from foldl_pool_step_bound [OF this, of ops] show ?thesis
    by (simp add: pool_run_def FrameBufferPool_init_def)
qed


section \<open>Evaluating the floating-point operations\<close>

lemma bit_length_0: "bit_length 0 = 0"
  by (simp add: bit_length.simps)

lemma bit_length_1: "bit_length 1 = 1"
  by (simp add: bit_length.simps)

lemma bit_length_Suc_0: "bit_length (Suc 0) = 1"
  by (simp add: bit_length.simps)

lemma bit_length_Bit0: "bit_length (numeral (Num.Bit0 k)) = Suc (bit_length (numeral k))"
  by (subst bit_length.simps) simp

lemma bit_length_Bit1: "bit_length (numeral (Num.Bit1 k)) = Suc (bit_length (numeral k))"
  by (subst bit_length.simps) simp

lemmas fp_eval = round_to_def fp_mul_def fp_div_def fp_of_int_def fp_trunc_def fp_less_def
  fp_le_def f32_of_u32_def f32_of_i32_def f32_lit_def
  Let_def bit_length_0 bit_length_1 bit_length_Suc_0 bit_length_Bit0 bit_length_Bit1

lemma not_fp_less_iff: "\<not> fp_less a b \<longleftrightarrow> fp_le b a"
  by (simp add: fp_less_def fp_le_def Let_def min.commute not_less)

lemma fp_le_refl: "fp_le a a"
  by (simp add: fp_le_def)

lemma f64_of_zero: "f64_of_size_t 0 = Flt 0 0"
  by (simp add: f64_of_size_t_def fp_of_int_def round_to_def bit_length_0)


section \<open>Quality setters\<close>

lemma tenth_le_one: "f32_le (f32_lit 1 10) (Finite (Flt 1 0))"
  by (simp add: fp_eval)

lemma not_f32_less_iff: "a \<noteq> NaN \<Longrightarrow> b \<noteq> NaN \<Longrightarrow> \<not> f32_less a b \<longleftrightarrow> f32_le b a"
  by (cases a; cases b) (auto simp: not_fp_less_iff)

lemma f32_le_refl: "a \<noteq> NaN \<Longrightarrow> f32_le a a"
  by (cases a) (simp_all add: fp_le_refl)

lemma f32_le_not_NaN: "f32_le a b \<Longrightarrow> a \<noteq> NaN \<and> b \<noteq> NaN"
  by (cases a; cases b) simp_all

lemma clamp_f32_range:
  assumes "f32_le lo hi" and "v \<noteq> NaN"
  shows "f32_le lo (clamp_f32 v lo hi) \<and> f32_le (clamp_f32 v lo hi) hi"
proof -
  from assms(1) have n: "lo \<noteq> NaN" "hi \<noteq> NaN"
    by (simp_all add: f32_le_not_NaN)
  show ?thesis
    using assms n by (auto simp: clamp_f32_def f32_le_refl not_f32_less_iff)
qed

lemma clamp_u32_eq: "clamp_u32 v 1 100 = max 1 (min 100 v)"
  by (cases "v = 0") (auto simp: clamp_u32_def max_def min_def not_less word_less_1 not_le)

lemma app_config_push [simp]: "app_config (push_encoder_config app) = app_config app"
  by (simp add: push_encoder_config_def split: option.splits)

lemma app_errors_push [simp]: "app_errors (push_encoder_config app) = app_errors app"
  by (simp add: push_encoder_config_def split: option.splits)

lemma app_encoder_push:
  "app_encoder (push_encoder_config app) =
     map_option (\<lambda>enc. update_config enc (encoder (app_config app))) (app_encoder app)"
  by (simp add: push_encoder_config_def split: option.splits)

text \<open>
  C10, as stated, is for every argument \<open>f\<close> of \<open>set_downscale\<close>. For NaN both
  comparisons of \<open>std::clamp\<close> are false, so NaN itself is stored: the stored value is
  not in \<open>0.1f..1.0f\<close>. Here the setter is called on an application in its default
  configuration, with an encoder.
\<close>

theorem set_downscale_stores_NaN:
  "(let app = \<lparr>app_config = Config_new,
                app_encoder = Some (VRFrameEncoder_init
                  \<lparr>has_cuda = False, nvjpeg_init = False, tj_init = True\<rparr> (encoder Config_new)),
                app_errors = []\<rparr>;
        stored = downscale_factor (encoder (app_config (set_downscale app NaN)))
    in stored = NaN
     \<and> \<not> f32_le (f32_lit 1 10) stored \<and> \<not> f32_le stored (Finite (Flt 1 0))
     \<and> map_option (downscale_factor \<circ> enc_config) (app_encoder (set_downscale app NaN))
         = Some NaN)"
  by (simp add: set_downscale_def clamp_f32_def f32_lit_def push_encoder_config_def
      update_config_def Let_def)

text \<open>
  C10, amended. For every argument \<open>u\<close>, \<open>set_quality u\<close> sets the configured JPEG
  quality to \<open>u\<close> clamped into 1..100. For every argument \<open>f\<close>, \<open>set_downscale f\<close>
  stores what the two comparisons of \<open>std::clamp(f, 0.1f, 1.0f)\<close> select, and when \<open>f\<close>
  is not NaN (an infinity included) the value stored is in \<open>0.1f..1.0f\<close>. The encoder
  (when there is one) receives the stored value, and nothing is handed to the error
  callback.
\<close>

theorem setters_clamp:
  "jpeg_quality (encoder (app_config (set_quality app u))) = max 1 (min 100 u)
   \<and> 1 \<le> jpeg_quality (encoder (app_config (set_quality app u)))
   \<and> jpeg_quality (encoder (app_config (set_quality app u))) \<le> 100
   \<and> map_option (jpeg_quality \<circ> enc_config) (app_encoder (set_quality app u))
       = map_option (\<lambda>_. max 1 (min 100 u)) (app_encoder app)
   \<and> app_errors (set_quality app u) = app_errors app
   \<and> downscale_factor (encoder (app_config (set_downscale app f)))
       = (if f32_less f (f32_lit 1 10) then f32_lit 1 10
          else if f32_less (Finite (Flt 1 0)) f then Finite (Flt 1 0) else f)
   \<and> (f \<noteq> NaN \<longrightarrow>
        f32_le (f32_lit 1 10) (downscale_factor (encoder (app_config (set_downscale app f))))
        \<and> f32_le (downscale_factor (encoder (app_config (set_downscale app f))))
             (Finite (Flt 1 0)))
   \<and> map_option (downscale_factor \<circ> enc_config) (app_encoder (set_downscale app f))
       = map_option (\<lambda>_. downscale_factor (encoder (app_config (set_downscale app f))))
           (app_encoder app)
   \<and> app_errors (set_downscale app f) = app_errors app"
proof -
  have q: "jpeg_quality (encoder (app_config (set_quality app u))) = max 1 (min 100 u)"
    by (simp add: set_quality_def clamp_u32_eq)
  have q_range: "1 \<le> max 1 (min 100 u)" "max 1 (min 100 u) \<le> (100::u32)"
    by simp_all
  have q_enc: "map_option (jpeg_quality \<circ> enc_config) (app_encoder (set_quality app u))
       = map_option (\<lambda>_. max 1 (min 100 u)) (app_encoder app)"
    by (simp add: set_quality_def app_encoder_push update_config_def clamp_u32_eq
        option.map_comp comp_def)
  have q_err: "app_errors (set_quality app u) = app_errors app"
    by (simp add: set_quality_def)
  have d: "downscale_factor (encoder (app_config (set_downscale app f)))
       = clamp_f32 f (f32_lit 1 10) (Finite (Flt 1 0))"
    by (simp add: set_downscale_def)
  have d_enc: "map_option (downscale_factor \<circ> enc_config) (app_encoder (set_downscale app f))
       = map_option (\<lambda>_. clamp_f32 f (f32_lit 1 10) (Finite (Flt 1 0))) (app_encoder app)"
    by (simp add: set_downscale_def app_encoder_push update_config_def
        option.map_comp comp_def)
  have d_err: "app_errors (set_downscale app f) = app_errors app"
    by (simp add: set_downscale_def)
  have r: "f \<noteq> NaN \<longrightarrow>
        f32_le (f32_lit 1 10) (clamp_f32 f (f32_lit 1 10) (Finite (Flt 1 0)))
        \<and> f32_le (clamp_f32 f (f32_lit 1 10) (Finite (Flt 1 0))) (Finite (Flt 1 0))"
    using clamp_f32_range [OF tenth_le_one, of f] by blast
  have e: "clamp_f32 f (f32_lit 1 10) (Finite (Flt 1 0))
       = (if f32_less f (f32_lit 1 10) then f32_lit 1 10
          else if f32_less (Finite (Flt 1 0)) f then Finite (Flt 1 0) else f)"
    by (simp add: clamp_f32_def)
  show ?thesis
    unfolding q d using q_range q_enc q_err d_enc d_err r e
    by (simp only: simp_thms)
qed

text \<open>
  The setters on an application in its default configuration, with an encoder: quality
  250 becomes 100, and the downscale factor \<open>+\<infinity>\<close> becomes \<open>1.0f\<close>.
\<close>

theorem setters_clamp_witness:
  "(let app = \<lparr>app_config = Config_new,
                app_encoder = Some (VRFrameEncoder_init
                  \<lparr>has_cuda = False, nvjpeg_init = False, tj_init = True\<rparr> (encoder Config_new)),
                app_errors = []\<rparr>
    in Infinity False \<noteq> NaN
     \<and> jpeg_quality (encoder (app_config (set_quality app 250))) = 100
     \<and> downscale_factor (encoder (app_config (set_downscale app (Infinity False))))
         = Finite (Flt 1 0)
     \<and> f32_le (f32_lit 1 10)
          (downscale_factor (encoder (app_config (set_downscale app (Infinity False)))))
     \<and> f32_le (downscale_factor (encoder (app_config (set_downscale app (Infinity False)))))
          (Finite (Flt 1 0))
     \<and> map_option (downscale_factor \<circ> enc_config)
          (app_encoder (set_downscale app (Infinity False))) = Some (Finite (Flt 1 0))
     \<and> app_errors (set_downscale app (Infinity False)) = [])"
proof -
  define app where "app = \<lparr>app_config = Config_new,
                app_encoder = Some (VRFrameEncoder_init
                  \<lparr>has_cuda = False, nvjpeg_init = False, tj_init = True\<rparr> (encoder Config_new)),
                app_errors = []\<rparr>"
  have n: "Infinity False \<noteq> NaN"
    by simp
  have q: "max 1 (min 100 250) = (100 :: u32)"
    by simp
  have c: "(if f32_less (Infinity False) (f32_lit 1 10) then f32_lit 1 10
            else if f32_less (Finite (Flt 1 0)) (Infinity False) then Finite (Flt 1 0)
            else Infinity False) = Finite (Flt 1 0)"
    by (simp add: f32_lit_def)
  have a: "app_errors app = []" "\<exists>enc. app_encoder app = Some enc"
    by (simp_all add: app_def)
  from setters_clamp [of app 250 "Infinity False"] n a show ?thesis
    unfolding app_def [symmetric] Let_def q c by auto
qed


section \<open>Encoder pipeline\<close>

text \<open>
  C1. The scenario of the specification: a 1920x1080 BGRA frame, \<open>downscale_factor = 0.5\<close>,
  \<open>vr_enabled = false\<close>, no output size override. The compressor is asked for an image of
  1920x1080, not 960x540: the downscaled size is computed and then used on the stereo
  path only.
\<close>

theorem encode_without_vr_keeps_input_size:
  "(let config = (encoder Config_new)\<lparr>downscale_factor := Finite (Flt 1 (- 1)),
                                           vr_enabled := False\<rparr>;
        (encoded_size, rq, enc) =
          encode lib (VRFrameEncoder_init pl config) input 1920 1080 (1920 * 4) 4
    in jr_width rq = 1920 \<and> jr_height rq = 1080 \<and> (jr_width rq, jr_height rq) \<noteq> (960, 540))"
  by (simp add: encode_def VRFrameEncoder_init_def Config_new_def Let_def split_def)

text \<open>
  C5. When the compressor reports 0 bytes, because the fallback compressor was selected
  (it always returns 0) or because the library call failed, the compression ratio is
  computed by a division by zero.
\<close>

theorem encode_ratio_divides_by_zero:
  "compression_ratio (enc_stats (snd (snd
      (encode lib (VRFrameEncoder_init \<lparr>has_cuda = False, nvjpeg_init = False, tj_init = False\<rparr>
         config) input w h pitch channels)))) = Div_By_Zero
   \<and> compression_ratio (enc_stats (snd (snd
      (encode (\<lambda>rq. None) enc input w h pitch channels)))) = Div_By_Zero"
proof -
  have z: "jpeg_encode (\<lambda>rq. None) b rq = 0" for b rq
    by (cases b) simp_all
  show ?thesis
    by (simp add: encode_def VRFrameEncoder_init_def AutoJPEGEncoder_init_def Let_def split_def
        f64_div_def f64_of_zero z)
qed


section \<open>Capture manager\<close>

text \<open>
  C3. The recovery in \<open>CaptureManager::capture\<close> re-initializes a window target from
  the stored handle, but a monitor target always as monitor 0. Here monitor 1 is selected
  with success; a second \<open>set_monitor(1)\<close> fails while the output cannot be duplicated
  and leaves the source uninitialized; the next \<open>capture\<close> recovers, on monitor 0.
\<close>

theorem recovery_targets_monitor_0:
  "(let ready = \<lparr>device_ok = True, adapter_ok = True, output_exists = (\<lambda>i. i < 2),
                  output_size = (\<lambda>i. (1920, 1080)), duplicate_ok = (\<lambda>i. True),
                  staging_ok = True, is_window = (\<lambda>h. False), window_monitor = (\<lambda>h. 0),
                  next_frame = New_Frame, texture_ok = True\<rparr>;
        busy = ready\<lparr>duplicate_ok := (\<lambda>i. i \<noteq> 1)\<rparr>;
        (ok1, m1) = set_monitor ready 1 CaptureManager_new;
        (ok2, m2) = set_monitor busy 1 m1;
        (got, m3) = CaptureManager_capture ready m2
    in ok1 \<and> m_initialized (m_capture m1) \<and> m_monitor_index (m_capture m1) = 1
     \<and> \<not> ok2 \<and> \<not> m_initialized (m_capture m2) \<and> m_monitor_index (m_capture m2) = 1
     \<and> got \<and> m_initialized (m_capture m3) \<and> m_monitor_index (m_capture m3) = 0)"
  by (simp add: set_monitor_def CaptureManager_capture_def CaptureManager_new_def
      DXGICapture_new_def DXGICapture_init_def create_duplication_def shutdown_def
      capture_frame_def MAX_RECOVERY_ATTEMPTS_def Let_def)


section \<open>Broadcast server\<close>

text \<open>
  C7. \<open>max_clients\<close> is the maximum number of concurrent clients, and \<open>on_accept\<close>
  checks it, but against the registry only, and a session enters the registry when its
  handshake completes. With \<open>max_clients = 1\<close>, two connections accepted before either
  handshake completes both pass the check, and both register: the registry holds two
  clients, and no connection was rejected.
\<close>

theorem registry_exceeds_max_clients:
  "(let srv = server_run ((network Config_new)\<lparr>max_clients := 1\<rparr>)
        [Accept (Some \<lparr>ci_id = ''10.0.0.2:50001'', ci_address = ''10.0.0.2'', ci_port = 50001\<rparr>),
         Accept (Some \<lparr>ci_id = ''10.0.0.3:50002'', ci_address = ''10.0.0.3'', ci_port = 50002\<rparr>),
         Handshake_Done ''10.0.0.2:50001'' False,
         Handshake_Done ''10.0.0.3:50002'' False]
    in max_clients (srv_config srv) = 1
     \<and> client_count srv = 2
     \<and> map fst (m_sessions srv) = [''10.0.0.2:50001'', ''10.0.0.3:50002'']
     \<and> rejected srv = []
     \<and> \<not> length (m_sessions srv) \<le> unat (max_clients (srv_config srv)))"
  by (simp add: server_run_def StreamingServer_init_def on_accept_def client_count_def
      session_on_accept_def register_session_def Config_new_def Let_def)

text \<open>
  The rejection itself is as the specification states it: when a connection arrives while
  the registry holds \<open>max_clients\<close> sessions or more, \<open>on_accept\<close> closes the socket
  without starting a session (so no handshake takes place), and the registry is unchanged.
\<close>

lemma full_registry_rejects:
  assumes "max_clients (srv_config srv) \<le> client_count srv"
  shows "m_sessions (on_accept srv (Some info)) = m_sessions srv
       \<and> handshakes (on_accept srv (Some info)) = handshakes srv
       \<and> rejected (on_accept srv (Some info)) = rejected srv @ [ci_id info]"
  using assms by (simp add: on_accept_def not_less [symmetric])

lemma full_registry_rejects_at_one:
  "(let srv = server_run ((network Config_new)\<lparr>max_clients := 1\<rparr>)
        [Accept (Some \<lparr>ci_id = ''10.0.0.2:50001'', ci_address = ''10.0.0.2'', ci_port = 50001\<rparr>),
         Handshake_Done ''10.0.0.2:50001'' False];
        info = \<lparr>ci_id = ''10.0.0.3:50002'', ci_address = ''10.0.0.3'', ci_port = 50002\<rparr>
    in max_clients (srv_config srv) \<le> client_count srv
     \<and> map fst (m_sessions srv) = [''10.0.0.2:50001'']
     \<and> m_sessions (on_accept srv (Some info)) = m_sessions srv
     \<and> handshakes (on_accept srv (Some info)) = handshakes srv
     \<and> rejected (on_accept srv (Some info)) = rejected srv @ [ci_id info])"
proof -
  define srv where "srv = server_run ((network Config_new)\<lparr>max_clients := 1\<rparr>)
        [Accept (Some \<lparr>ci_id = ''10.0.0.2:50001'', ci_address = ''10.0.0.2'', ci_port = 50001\<rparr>),
         Handshake_Done ''10.0.0.2:50001'' False]"
  have s: "m_sessions srv = [(''10.0.0.2:50001'',
             \<lparr>ci_id = ''10.0.0.2:50001'', ci_address = ''10.0.0.2'', ci_port = 50001\<rparr>)]"
     and c: "max_clients (srv_config srv) = 1"
    by (simp_all add: srv_def server_run_def StreamingServer_init_def on_accept_def
        client_count_def session_on_accept_def register_session_def Config_new_def Let_def)
  have h: "max_clients (srv_config srv) \<le> client_count srv"
    by (simp add: c client_count_def s)
  from full_registry_rejects [OF h] h s show ?thesis
    unfolding srv_def [symmetric] Let_def by simp
qed


section \<open>Stereo shaper\<close>

text \<open>
  A loop that writes through a pointer: an address that one iteration writes, and no
  other, holds what that iteration wrote; an address that no iteration writes is unchanged.
\<close>

lemma foldl_mem_hit:
  assumes "x \<in> set xs"
    and "\<And>out. S out x a = v"
    and "\<And>out z. z \<in> set xs \<Longrightarrow> z \<noteq> x \<Longrightarrow> S out z a = out a"
  shows "foldl S out xs a = v"
  using assms
proof (induction xs rule: rev_induct)
  case Nil
  then show ?case by simp
next
  case (snoc z zs)
  show ?case
  proof (cases "z = x")
    case True
    then show ?thesis by (simp add: snoc.prems(2))
  next
    case False
    with snoc.prems(1) have mem: "x \<in> set zs" by simp
    have "foldl S out (zs @ [z]) a = foldl S out zs a"
      using snoc.prems(3) [of z] False by simp
    also have "\<dots> = v"
      using mem snoc.prems(2,3) by (intro snoc.IH) auto
    finally show ?thesis .
  qed
qed

lemma foldl_mem_frame:
  assumes "\<And>out z. z \<in> set xs \<Longrightarrow> S out z a = out a"
  shows "foldl S out xs a = out a"
  using assms by (induction xs rule: rev_induct) simp_all

lemma copy_pixel_hit: "c < 3 \<Longrightarrow> copy_pixel src s dst d (d + c) = src (s + c)"
proof -
  assume "c < 3"
  then consider "c = 0" | "c = 1" | "c = 2" by linarith
  then show ?thesis by cases (simp_all add: copy_pixel_def)
qed

lemma copy_pixel_frame: "a < d \<or> d + 3 \<le> a \<Longrightarrow> copy_pixel src s dst d a = dst a"
  by (auto simp: copy_pixel_def)

lemma mem_columns: "z \<in> set (map of_nat [0..<unat (h :: u32)]) \<longleftrightarrow> z < h"
proof
  assume "z \<in> set (map of_nat [0..<unat h])"
  then obtain k where k: "k < unat h" "z = of_nat k" by auto
  have "unat h < 2 ^ 32" using unsigned_less [of h, where 'a = nat] by simp
  with k(1) have "k < 2 ^ 32" by linarith
  then have "unat z = k" using k(2) by (simp add: unat_of_nat)
  with k(1) show "z < h" by (simp add: word_less_nat_alt)
next
  assume "z < h"
  then have "unat z < unat h" by (simp add: word_less_nat_alt)
  moreover have "z = of_nat (unat z)" by simp
  ultimately show "z \<in> set (map of_nat [0..<unat h])"
    by (metis atLeastLessThan_iff image_eqI set_map set_upt zero_le)
qed

lemma unat_times_3:
  fixes w :: u32
  assumes "unat w * 3 < 2 ^ 32"
  shows "unat (w * 3) = unat w * 3"
proof -
  have "unat w * unat (3 :: u32) < 2 ^ LENGTH(32)" using assms by simp
  then have "unat (w * 3) = unat w * unat (3 :: u32)" by (simp only: unat_mult_lem)
  then show ?thesis by simp
qed

lemma unat_plus_32:
  fixes a b :: u32
  assumes "unat a + unat b < 2 ^ 32"
  shows "unat (a + b) = unat a + unat b"
proof -
  have "unat a + unat b < 2 ^ LENGTH(32)" using assms by simp
  then show ?thesis by (simp only: unat_add_lem)
qed

lemma pixel_apart_right:
  "c < 3 \<Longrightarrow> (z::nat) \<noteq> x \<Longrightarrow>
   d + (h + x) * 3 + c < d + (h + z) * 3 \<or> d + (h + z) * 3 + 3 \<le> d + (h + x) * 3 + (c::nat)"
  by (simp add: algebra_simps) linarith

lemma pixel_outside_right:
  "a < d + h * 3 \<or> d + h * 6 \<le> a \<Longrightarrow> z < h \<Longrightarrow>
   a < d + (h + z) * 3 \<or> d + (h + z) * 3 + 3 \<le> (a::nat)"
  by (simp add: algebra_simps) linarith

lemma pixel_apart_left:
  "c < 3 \<Longrightarrow> (z::nat) \<noteq> x \<Longrightarrow>
   d + x * 3 + c < d + z * 3 \<or> d + z * 3 + 3 \<le> d + x * 3 + (c::nat)"
  by linarith

lemma pixel_outside_left:
  "a < d \<or> d + h * 3 \<le> a \<Longrightarrow> z < h \<Longrightarrow>
   a < d + z * 3 \<or> d + z * 3 + 3 \<le> (a::nat)"
  by linarith

lemma right_eye_pixel:
  assumes x: "x < half" and nw: "unat half * 6 < 2 ^ 32" and c: "c < 3"
  shows "right_eye input src_row input_width input_channels separation_pixels x_scale half
           dst_row out (dst_row + (unat half + unat x) * 3 + c)
         = input (src_row + unat (right_src_x input_width separation_pixels x_scale x
                                   * input_channels) + c)"
proof -
  have off: "unat ((half + z) * 3) = (unat half + unat z) * 3" if "z < half" for z
  proof -
    from that have lt: "unat z < unat half" by (simp add: word_less_nat_alt)
    have s: "unat (half + z) = unat half + unat z"
      by (rule unat_plus_32) (use lt nw in simp)
    have "unat (half + z) * 3 < 2 ^ 32"
      unfolding s using lt nw by simp
    then have "unat ((half + z) * 3) = unat (half + z) * 3"
      by (rule unat_times_3)
    then show ?thesis by (simp only: s)
  qed
  show ?thesis
    unfolding right_eye_def
  proof (rule foldl_mem_hit [where x = x])
    show "x \<in> set (map of_nat [0..<unat half])"
      using x by (simp only: mem_columns)
  next
    fix out' :: mem
    show "copy_pixel input
            (src_row + unat (right_src_x input_width separation_pixels x_scale x * input_channels))
            out' (dst_row + unat ((half + x) * 3)) (dst_row + (unat half + unat x) * 3 + c)
          = input (src_row + unat (right_src_x input_width separation_pixels x_scale x
                                    * input_channels) + c)"
      by (simp only: off [OF x] copy_pixel_hit [OF c])
  next
    fix out' :: mem and z :: u32
    assume "z \<in> set (map of_nat [0..<unat half])" and ne: "z \<noteq> x"
    then have z: "z < half" by (simp only: mem_columns)
    from ne have "unat z \<noteq> unat x" by (simp add: word_unat_eq_iff)
    with c have "dst_row + (unat half + unat x) * 3 + c < dst_row + (unat half + unat z) * 3
               \<or> dst_row + (unat half + unat z) * 3 + 3 \<le> dst_row + (unat half + unat x) * 3 + c"
      by (rule pixel_apart_right)
    then show "copy_pixel input
            (src_row + unat (right_src_x input_width separation_pixels x_scale z * input_channels))
            out' (dst_row + unat ((half + z) * 3)) (dst_row + (unat half + unat x) * 3 + c)
          = out' (dst_row + (unat half + unat x) * 3 + c)"
      by (simp only: off [OF z] copy_pixel_frame)
  qed
qed

lemma right_eye_frame:
  assumes nw: "unat half * 6 < 2 ^ 32"
    and a: "a < dst_row + unat half * 3 \<or> dst_row + unat half * 6 \<le> a"
  shows "right_eye input src_row input_width input_channels separation_pixels x_scale half
           dst_row out a = out a"
  unfolding right_eye_def
proof (rule foldl_mem_frame)
  fix out' :: mem and z :: u32
  assume "z \<in> set (map of_nat [0..<unat half])"
  then have z: "z < half" by (simp only: mem_columns)
  then have lt: "unat z < unat half" by (simp add: word_less_nat_alt)
  have s: "unat (half + z) = unat half + unat z"
    by (rule unat_plus_32) (use lt nw in simp)
  have "unat (half + z) * 3 < 2 ^ 32"
    unfolding s using lt nw by simp
  then have "unat ((half + z) * 3) = unat (half + z) * 3"
    by (rule unat_times_3)
  then have off: "unat ((half + z) * 3) = (unat half + unat z) * 3"
    by (simp only: s)
  from a lt have "a < dst_row + (unat half + unat z) * 3
      \<or> dst_row + (unat half + unat z) * 3 + 3 \<le> a"
    by (rule pixel_outside_right)
  then show "copy_pixel input
          (src_row + unat (right_src_x input_width separation_pixels x_scale z * input_channels))
          out' (dst_row + unat ((half + z) * 3)) a = out' a"
    by (simp only: off copy_pixel_frame)
qed

lemma left_eye_pixel:
  assumes x: "x < half" and nw: "unat half * 6 < 2 ^ 32" and c: "c < 3"
  shows "left_eye input src_row input_width input_channels separation_pixels x_scale half
           dst_row out (dst_row + unat x * 3 + c)
         = input (src_row + unat (left_src_x input_width separation_pixels x_scale x
                                   * input_channels) + c)"
proof -
  have off: "unat (z * 3) = unat z * 3" if "z < half" for z
  proof -
    from that have "unat z < unat half" by (simp add: word_less_nat_alt)
    with nw have "unat z * 3 < 2 ^ 32" by simp
    then show ?thesis by (rule unat_times_3)
  qed
  show ?thesis
    unfolding left_eye_def
  proof (rule foldl_mem_hit [where x = x])
    show "x \<in> set (map of_nat [0..<unat half])"
      using x by (simp only: mem_columns)
  next
    fix out' :: mem
    show "copy_pixel input
            (src_row + unat (left_src_x input_width separation_pixels x_scale x * input_channels))
            out' (dst_row + unat (x * 3)) (dst_row + unat x * 3 + c)
          = input (src_row + unat (left_src_x input_width separation_pixels x_scale x
                                    * input_channels) + c)"
      by (simp only: off [OF x] copy_pixel_hit [OF c])
  next
    fix out' :: mem and z :: u32
    assume "z \<in> set (map of_nat [0..<unat half])" and ne: "z \<noteq> x"
    then have z: "z < half" by (simp only: mem_columns)
    from ne have "unat z \<noteq> unat x" by (simp add: word_unat_eq_iff)
    with c have "dst_row + unat x * 3 + c < dst_row + unat z * 3
               \<or> dst_row + unat z * 3 + 3 \<le> dst_row + unat x * 3 + c"
      by (rule pixel_apart_left)
    then show "copy_pixel input
            (src_row + unat (left_src_x input_width separation_pixels x_scale z * input_channels))
            out' (dst_row + unat (z * 3)) (dst_row + unat x * 3 + c)
          = out' (dst_row + unat x * 3 + c)"
      by (simp only: off [OF z] copy_pixel_frame)
  qed
qed

lemma left_eye_frame:
  assumes nw: "unat half * 6 < 2 ^ 32"
    and a: "a < dst_row \<or> dst_row + unat half * 3 \<le> a"
  shows "left_eye input src_row input_width input_channels separation_pixels x_scale half
           dst_row out a = out a"
  unfolding left_eye_def
proof (rule foldl_mem_frame)
  fix out' :: mem and z :: u32
  assume "z \<in> set (map of_nat [0..<unat half])"
  then have z: "z < half" by (simp only: mem_columns)
  then have lt: "unat z < unat half" by (simp add: word_less_nat_alt)
  with nw have "unat z * 3 < 2 ^ 32" by simp
  then have off: "unat (z * 3) = unat z * 3" by (rule unat_times_3)
  from a lt have "a < dst_row + unat z * 3 \<or> dst_row + unat z * 3 + 3 \<le> a"
    by (rule pixel_outside_left)
  then show "copy_pixel input
          (src_row + unat (left_src_x input_width separation_pixels x_scale z * input_channels))
          out' (dst_row + unat (z * 3)) a = out' a"
    by (simp only: off copy_pixel_frame)
qed

lemma stereo_row_right:
  assumes "x < half" and "unat half * 6 < 2 ^ 32" and "c < 3"
  shows "stereo_row input input_width input_pitch input_channels half output_pitch
           separation_pixels x_scale y_scale out y
           (unat (y * output_pitch) + (unat half + unat x) * 3 + c)
         = input (unat (f32_to_u32 (f32_mul (f32_of_i32 y) y_scale) * input_pitch)
                  + unat (right_src_x input_width separation_pixels x_scale x * input_channels)
                  + c)"
  unfolding stereo_row_def Let_def by (rule right_eye_pixel [OF assms])

lemma stereo_row_left:
  assumes x: "x < half" and nw: "unat half * 6 < 2 ^ 32" and c: "c < 3"
  shows "stereo_row input input_width input_pitch input_channels half output_pitch
           separation_pixels x_scale y_scale out y
           (unat (y * output_pitch) + unat x * 3 + c)
         = input (unat (f32_to_u32 (f32_mul (f32_of_i32 y) y_scale) * input_pitch)
                  + unat (left_src_x input_width separation_pixels x_scale x * input_channels)
                  + c)"
proof -
  from x have "unat x < unat half" by (simp add: word_less_nat_alt)
  with c have "unat (y * output_pitch) + unat x * 3 + c < unat (y * output_pitch) + unat half * 3"
    by linarith
  then have "unat (y * output_pitch) + unat x * 3 + c < unat (y * output_pitch) + unat half * 3
      \<or> unat (y * output_pitch) + unat half * 6 \<le> unat (y * output_pitch) + unat x * 3 + c"
    by (rule disjI1)
  from right_eye_frame [OF nw this] left_eye_pixel [OF x nw c]
  show ?thesis
    unfolding stereo_row_def Let_def by (simp only:)
qed

lemma stereo_row_frame:
  assumes nw: "unat half * 6 < 2 ^ 32"
    and a: "a < unat (y * output_pitch) \<or> unat (y * output_pitch) + unat half * 6 \<le> a"
  shows "stereo_row input input_width input_pitch input_channels half output_pitch
           separation_pixels x_scale y_scale out y a = out a"
proof -
  from a have r: "a < unat (y * output_pitch) + unat half * 3
      \<or> unat (y * output_pitch) + unat half * 6 \<le> a"
    by linarith
  from a have l: "a < unat (y * output_pitch)
      \<or> unat (y * output_pitch) + unat half * 3 \<le> a"
    by linarith
  from right_eye_frame [OF nw r] left_eye_frame [OF nw l]
  show ?thesis
    unfolding stereo_row_def Let_def by (simp only:)
qed

lemma sint_eq_unat_32:
  fixes w :: u32
  assumes "unat w < 2 ^ 31"
  shows "sint w = int (unat w)"
proof -
  have "int (unat w) < int (2 ^ 31)"
    using assms by (simp only: of_nat_less_iff)
  then have "uint w < 2 ^ 31"
    by simp
  moreover have "- (2 ^ 31) \<le> uint w" 
    by (rule order_trans [of _ 0]) simp_all
  ultimately have "signed_take_bit 31 (uint w) = uint w"
    by (rule signed_take_bit_int_eq_self [rotated])
  moreover have "sint w = signed_take_bit (LENGTH(32) - Suc 0) (uint w)"
    by (rule sint_uint)
  ultimately have "sint w = uint w" by simp
  then show ?thesis by simp
qed

lemma mem_rows:
  fixes Ho :: u32
  assumes "unat Ho < 2 ^ 31"
  shows "z \<in> set (map of_nat [0..<nat (sint Ho)]) \<longleftrightarrow> z < Ho"
  by (simp only: sint_eq_unat_32 [OF assms] nat_int mem_columns)

text \<open>The offset of a row that lies inside a raster of \<open>H\<close> rows.\<close>

lemma row_offset:
  fixes z P Ho :: u32
  assumes "z < Ho" and "unat P * unat Ho < 2 ^ 32"
  shows "unat (z * P) = unat z * unat P"
proof -
  from assms(1) have "unat z < unat Ho" by (simp add: word_less_nat_alt)
  then have "unat z * unat P \<le> unat Ho * unat P" by (intro mult_le_mono1) simp
  also have "\<dots> = unat P * unat Ho" by (rule mult.commute)
  also note assms(2)
  finally have "unat z * unat P < 2 ^ LENGTH(32)" by simp
  then show ?thesis by (simp only: unat_mult_lem)
qed

lemma rows_apart:
  fixes z y P h off a :: nat
  assumes "z \<noteq> y" and "h * 6 \<le> P" and "off < h * 6"
  shows "y * P + off < z * P \<or> z * P + h * 6 \<le> y * P + off"
proof (cases "z < y")
  case True
  then have "Suc z * P \<le> y * P" by (intro mult_le_mono1) simp
  with assms(2) show ?thesis by simp
next
  case False
  with assms(1) have "Suc y * P \<le> z * P" by (intro mult_le_mono1) simp
  with assms(2,3) show ?thesis by simp
qed

text \<open>What a raster that fits 32-bit offsets implies for the rows and the two halves.\<close>

lemma raster_geometry:
  fixes Wo Ho x y :: u32
  assumes fit: "unat Wo * 3 * unat Ho < 2 ^ 32" and y: "y < Ho" and x: "x < Wo div 2"
  shows "unat (Wo * 3) = unat Wo * 3"
    and "unat (Wo div 2) * 6 \<le> unat Wo * 3"
    and "unat (Wo div 2) * 6 < 2 ^ 32"
    and "unat Ho < 2 ^ 31"
    and "unat (Wo * 3) * unat Ho < 2 ^ 32"
proof -
  from y have Hpos: "1 \<le> unat Ho" by (simp add: word_less_nat_alt)
  from x have "unat x < unat (Wo div 2)" by (simp add: word_less_nat_alt)
  then have Wpos: "2 \<le> unat Wo" by (simp add: unat_div)
  have "unat Wo * 3 \<le> unat Wo * 3 * unat Ho" using Hpos by simp
  from this fit have w3: "unat Wo * 3 < 2 ^ 32" by (rule le_less_trans)
  then show p: "unat (Wo * 3) = unat Wo * 3" by (rule unat_times_3)
  show h6: "unat (Wo div 2) * 6 \<le> unat Wo * 3" by (simp add: unat_div)
  with w3 show "unat (Wo div 2) * 6 < 2 ^ 32" by simp
  have "6 * unat Ho \<le> unat Wo * 3 * unat Ho" using Wpos by (intro mult_le_mono1) simp
  from this fit have "6 * unat Ho < 2 ^ 32" by (rule le_less_trans)
  then show "unat Ho < 2 ^ 31" by simp
  from fit show "unat (Wo * 3) * unat Ho < 2 ^ 32" by (simp only: p)
qed

lemma process_scaled_right:
  fixes Wo Ho x y :: u32
  assumes fit: "unat Wo * 3 * unat Ho < 2 ^ 32" and y: "y < Ho" and x: "x < Wo div 2"
    and c: "c < 3"
  shows "snd (process_scaled input Wi Hi pitch ch output Wo Ho ds es)
           (unat y * (unat Wo * 3) + (unat (Wo div 2) + unat x) * 3 + c)
         = input (unat (f32_to_u32 (f32_mul (f32_of_i32 y)
                                      (f32_div (f32_of_u32 Hi) (f32_of_u32 Ho))) * pitch)
                  + unat (right_src_x Wi (f32_to_u32 (f32_mul (f32_of_u32 Wi) es))
                            (f32_div (f32_of_u32 Wi) (f32_of_u32 (Wo div 2))) x * ch)
                  + c)"
proof -
  note g = raster_geometry [OF fit y x]
  have yoff: "unat y * (unat Wo * 3) = unat (y * (Wo * 3))"
    by (simp only: row_offset [OF y g(5)] g(1))
  have off: "(unat (Wo div 2) + unat x) * 3 + c < unat (Wo div 2) * 6"
    using x c by (simp add: word_less_nat_alt)
  show ?thesis
    unfolding process_scaled_def Let_def snd_conv
  proof (rule foldl_mem_hit [where x = y])
    show "y \<in> set (map of_nat [0..<nat (sint Ho)])"
      using y by (simp only: mem_rows [OF g(4)])
  next
    fix out' :: mem
    show "stereo_row input Wi pitch ch (Wo div 2) (Wo * 3)
            (f32_to_u32 (f32_mul (f32_of_u32 Wi) es))
            (f32_div (f32_of_u32 Wi) (f32_of_u32 (Wo div 2)))
            (f32_div (f32_of_u32 Hi) (f32_of_u32 Ho)) out' y
            (unat y * (unat Wo * 3) + (unat (Wo div 2) + unat x) * 3 + c)
          = input (unat (f32_to_u32 (f32_mul (f32_of_i32 y)
                                       (f32_div (f32_of_u32 Hi) (f32_of_u32 Ho))) * pitch)
                   + unat (right_src_x Wi (f32_to_u32 (f32_mul (f32_of_u32 Wi) es))
                             (f32_div (f32_of_u32 Wi) (f32_of_u32 (Wo div 2))) x * ch)
                   + c)"
      unfolding yoff by (rule stereo_row_right [OF x g(3) c])
  next
    fix out' :: mem and z :: u32
    assume "z \<in> set (map of_nat [0..<nat (sint Ho)])" and ne: "z \<noteq> y"
    then have z: "z < Ho" by (simp only: mem_rows [OF g(4)])
    have zoff: "unat (z * (Wo * 3)) = unat z * (unat Wo * 3)"
      by (simp only: row_offset [OF z g(5)] g(1))
    from ne have "unat z \<noteq> unat y" by (simp add: word_unat_eq_iff)
    from rows_apart [OF this g(2) off]
    have "unat y * (unat Wo * 3) + ((unat (Wo div 2) + unat x) * 3 + c) < unat (z * (Wo * 3))
        \<or> unat (z * (Wo * 3)) + unat (Wo div 2) * 6
            \<le> unat y * (unat Wo * 3) + ((unat (Wo div 2) + unat x) * 3 + c)"
      by (simp only: zoff)
    then have "unat y * (unat Wo * 3) + (unat (Wo div 2) + unat x) * 3 + c < unat (z * (Wo * 3))
        \<or> unat (z * (Wo * 3)) + unat (Wo div 2) * 6
            \<le> unat y * (unat Wo * 3) + (unat (Wo div 2) + unat x) * 3 + c"
      by (simp only: add.assoc)
    then show "stereo_row input Wi pitch ch (Wo div 2) (Wo * 3)
            (f32_to_u32 (f32_mul (f32_of_u32 Wi) es))
            (f32_div (f32_of_u32 Wi) (f32_of_u32 (Wo div 2)))
            (f32_div (f32_of_u32 Hi) (f32_of_u32 Ho)) out' z
            (unat y * (unat Wo * 3) + (unat (Wo div 2) + unat x) * 3 + c)
          = out' (unat y * (unat Wo * 3) + (unat (Wo div 2) + unat x) * 3 + c)"
      by (rule stereo_row_frame [OF g(3)])
  qed
qed

lemma process_scaled_left:
  fixes Wo Ho x y :: u32
  assumes fit: "unat Wo * 3 * unat Ho < 2 ^ 32" and y: "y < Ho" and x: "x < Wo div 2"
    and c: "c < 3"
  shows "snd (process_scaled input Wi Hi pitch ch output Wo Ho ds es)
           (unat y * (unat Wo * 3) + unat x * 3 + c)
         = input (unat (f32_to_u32 (f32_mul (f32_of_i32 y)
                                      (f32_div (f32_of_u32 Hi) (f32_of_u32 Ho))) * pitch)
                  + unat (left_src_x Wi (f32_to_u32 (f32_mul (f32_of_u32 Wi) es))
                            (f32_div (f32_of_u32 Wi) (f32_of_u32 (Wo div 2))) x * ch)
                  + c)"
proof -
  note g = raster_geometry [OF fit y x]
  have yoff: "unat y * (unat Wo * 3) = unat (y * (Wo * 3))"
    by (simp only: row_offset [OF y g(5)] g(1))
  have off: "unat x * 3 + c < unat (Wo div 2) * 6"
    using x c by (simp add: word_less_nat_alt)
  show ?thesis
    unfolding process_scaled_def Let_def snd_conv
  proof (rule foldl_mem_hit [where x = y])
    show "y \<in> set (map of_nat [0..<nat (sint Ho)])"
      using y by (simp only: mem_rows [OF g(4)])
  next
    fix out' :: mem
    show "stereo_row input Wi pitch ch (Wo div 2) (Wo * 3)
            (f32_to_u32 (f32_mul (f32_of_u32 Wi) es))
            (f32_div (f32_of_u32 Wi) (f32_of_u32 (Wo div 2)))
            (f32_div (f32_of_u32 Hi) (f32_of_u32 Ho)) out' y
            (unat y * (unat Wo * 3) + unat x * 3 + c)
          = input (unat (f32_to_u32 (f32_mul (f32_of_i32 y)
                                       (f32_div (f32_of_u32 Hi) (f32_of_u32 Ho))) * pitch)
                   + unat (left_src_x Wi (f32_to_u32 (f32_mul (f32_of_u32 Wi) es))
                             (f32_div (f32_of_u32 Wi) (f32_of_u32 (Wo div 2))) x * ch)
                   + c)"
      unfolding yoff by (rule stereo_row_left [OF x g(3) c])
  next
    fix out' :: mem and z :: u32
    assume "z \<in> set (map of_nat [0..<nat (sint Ho)])" and ne: "z \<noteq> y"
    then have z: "z < Ho" by (simp only: mem_rows [OF g(4)])
    have zoff: "unat (z * (Wo * 3)) = unat z * (unat Wo * 3)"
      by (simp only: row_offset [OF z g(5)] g(1))
    from ne have "unat z \<noteq> unat y" by (simp add: word_unat_eq_iff)
    from rows_apart [OF this g(2) off]
    have "unat y * (unat Wo * 3) + (unat x * 3 + c) < unat (z * (Wo * 3))
        \<or> unat (z * (Wo * 3)) + unat (Wo div 2) * 6
            \<le> unat y * (unat Wo * 3) + (unat x * 3 + c)"
      by (simp only: zoff)
    then have "unat y * (unat Wo * 3) + unat x * 3 + c < unat (z * (Wo * 3))
        \<or> unat (z * (Wo * 3)) + unat (Wo div 2) * 6
            \<le> unat y * (unat Wo * 3) + unat x * 3 + c"
      by (simp only: add.assoc)
    then show "stereo_row input Wi pitch ch (Wo div 2) (Wo * 3)
            (f32_to_u32 (f32_mul (f32_of_u32 Wi) es))
            (f32_div (f32_of_u32 Wi) (f32_of_u32 (Wo div 2)))
            (f32_div (f32_of_u32 Hi) (f32_of_u32 Ho)) out' z
            (unat y * (unat Wo * 3) + unat x * 3 + c)
          = out' (unat y * (unat Wo * 3) + unat x * 3 + c)"
      by (rule stereo_row_frame [OF g(3)])
  qed
qed

text \<open>Single-precision values that the examples below need.\<close>

lemma eval_sep_40: "f32_to_u32 (f32_mul (f32_of_u32 40) (f32_lit 3 100)) = 1"
  by (simp add: fp_eval)
lemma eval_x_scale_40_10: "f32_div (f32_of_u32 40) (f32_of_u32 10) = Finite (Flt 8388608 (- 21))"
  by (simp add: fp_eval)
lemma eval_y_scale_4_2: "f32_div (f32_of_u32 4) (f32_of_u32 2) = Finite (Flt 8388608 (- 22))"
  by (simp add: fp_eval)
lemma eval_column_9: "f32_to_u32 (f32_mul (f32_of_u32 9) (Finite (Flt 8388608 (- 21)))) = 36"
  by (simp add: fp_eval)
lemma eval_row_1: "f32_to_u32 (f32_mul (f32_of_i32 1) (Finite (Flt 8388608 (- 22)))) = 2"
  by (simp add: fp_eval)

text \<open>
  C9, as stated, takes the floor of the exact products. The shaper computes the scales
  and the products in single precision. On a 1366x768 frame with the default downscale
  factor 0.65 the encoder asks for an output of 886x498; \<open>768 / 498\<close> is rounded down to
  \<open>12936648 / 2 ^ 23\<close>, and for the output row 83, whose exact product \<open>83 * 768 / 498\<close>
  is 128, the rounded product is less than 128. The pixel \<open>(443, 83)\<close>, the first of the
  right half, holds the byte of input row 127, not of row 128; the input byte at offset
  \<open>i\<close> is the number of its row, \<open>i div 5464\<close>.
\<close>

theorem stereo_right_row_rounded:
  "(let input = (\<lambda>i. of_nat (i div 5464) :: u8);
        es = f32_lit 3 100;
        out = snd (process_scaled input 1366 768 5464 4 (\<lambda>i. 0) 886 498 (f32_lit 65 100) es);
        sy_scale = f32_div (f32_of_u32 768) (f32_of_u32 498);
        sy = f32_to_u32 (f32_mul (f32_of_i32 83) sy_scale);
        sep = f32_to_u32 (f32_mul (f32_of_u32 1366) es);
        sx_scale = f32_div (f32_of_u32 1366) (f32_of_u32 (886 div 2));
        sx = min (f32_to_u32 (f32_mul (f32_of_u32 (443 - 886 div 2)) sx_scale) + sep) (1366 - 1)
    in f32_to_u32 (f32_mul (f32_of_u32 1366) (f32_lit 65 100)) div 2 * 2 = 886
     \<and> f32_to_u32 (f32_mul (f32_of_u32 768) (f32_lit 65 100)) div 2 * 2 = 498
     \<and> (83 * 768 :: int) = 128 * 498
     \<and> sy = 127 \<and> sep = 40 \<and> sx = 40
     \<and> out (83 * (886 * 3) + 443 * 3 + 0) = input (127 * 5464 + 40 * 4 + 0)
     \<and> input (127 * 5464 + 40 * 4 + 0) = 127
     \<and> input (128 * 5464 + 40 * 4 + 0) = 128)"
proof -
  have h: "unat (886 :: u32) * 3 * unat (498 :: u32) < 2 ^ 32" "(83 :: u32) < 498"
    "(0 :: u32) < 886 div 2" "(0 :: nat) < 3"
    by simp_all
  have halfw: "(886 :: u32) div 2 = 443"
    by simp
  have size: "f32_to_u32 (f32_mul (f32_of_u32 1366) (f32_lit 65 100)) = 887"
    "f32_to_u32 (f32_mul (f32_of_u32 768) (f32_lit 65 100)) = 499"
    by (simp_all add: fp_eval)
  have sep: "f32_to_u32 (f32_mul (f32_of_u32 1366) (f32_lit 3 100)) = 40"
    by (simp add: fp_eval)
  have sc: "f32_div (f32_of_u32 768) (f32_of_u32 498) = Finite (Flt 12936648 (- 23))"
    by (simp add: fp_eval)
  have sy: "f32_to_u32 (f32_mul (f32_of_i32 83) (Finite (Flt 12936648 (- 23)))) = 127"
    by (simp add: fp_eval)
  have fx: "f32_to_u32 (f32_mul (f32_of_u32 0) (f32_div (f32_of_u32 1366) (f32_of_u32 443))) = 0"
    by (simp add: fp_eval)
  have rx: "right_src_x 1366 40 (f32_div (f32_of_u32 1366) (f32_of_u32 443)) 0 = 40"
    by (simp add: right_src_x_def fx)
  have out: "snd (process_scaled (\<lambda>i. of_nat (i div 5464) :: u8) 1366 768 5464 4 (\<lambda>i. 0) 886 498
                (f32_lit 65 100) (f32_lit 3 100)) (83 * (886 * 3) + 443 * 3 + 0)
             = (of_nat ((127 * 5464 + 40 * 4 + 0) div 5464) :: u8)"
    using process_scaled_right [OF h, where input = "\<lambda>i. of_nat (i div 5464) :: u8"
        and Wi = 1366 and Hi = 768 and pitch = 5464 and ch = 4 and ds = "f32_lit 65 100"
        and es = "f32_lit 3 100"]
    by (simp add: halfw sep sc sy rx)
  show ?thesis
    unfolding Let_def halfw sep sc sy size using out by (simp add: fx)
qed

text \<open>
  C9, amended. For an output raster of even width \<open>Wo\<close> whose \<open>Wo * 3 * Ho\<close> bytes fit
  the 32-bit offsets the shaper computes, and every output pixel \<open>(x, y)\<close> of the right
  half (\<open>Wo / 2 \<le> x < Wo\<close>, \<open>y < Ho\<close>), the three bytes of the pixel are the three bytes
  of the input pixel at column \<open>sx = min(floor((x - Wo/2) * (Wi / (Wo/2))) + sep, Wi - 1)\<close>
  and row \<open>sy = floor(y * (Hi / Ho))\<close>, where \<open>sep = floor(Wi * eye_separation)\<close>, in
  the arithmetic of the source: the two quotients and the three products are single
  precision operations, each rounded to the nearest \<open>f32\<close>, on the operands converted to
  \<open>f32\<close>; the columns, the rows and the byte offsets \<open>sy * pitch\<close> and \<open>sx * channels\<close>
  are \<open>u32\<close>.
\<close>

theorem stereo_right_half:
  fixes Wi Hi pitch ch Wo Ho x y :: u32
  assumes fit: "unat Wo * 3 * unat Ho < 2 ^ 32" and even: "even (unat Wo)"
    and x: "Wo div 2 \<le> x" "x < Wo" and y: "y < Ho" and c: "c < 3"
  shows "snd (process_scaled input Wi Hi pitch ch output Wo Ho ds es)
           (unat y * (unat Wo * 3) + unat x * 3 + c)
         = (let sx_scale = f32_div (f32_of_u32 Wi) (f32_of_u32 (Wo div 2));
                sy_scale = f32_div (f32_of_u32 Hi) (f32_of_u32 Ho);
                sep = f32_to_u32 (f32_mul (f32_of_u32 Wi) es);
                sx = min (f32_to_u32 (f32_mul (f32_of_u32 (x - Wo div 2)) sx_scale) + sep)
                         (Wi - 1);
                sy = f32_to_u32 (f32_mul (f32_of_i32 y) sy_scale)
            in input (unat (sy * pitch) + unat (sx * ch) + c))"
proof -
  have sub: "unat (x - Wo div 2) = unat x - unat (Wo div 2)"
    using x(1) by (rule unat_sub)
  from x(1) have le: "unat (Wo div 2) \<le> unat x"
    by (simp add: word_le_nat_alt)
  from x(2) have "unat x < unat Wo"
    by (simp add: word_less_nat_alt)
  moreover from even have "unat Wo = unat (Wo div 2) + unat (Wo div 2)"
    by (auto simp: unat_div elim: evenE)
  ultimately have "unat (x - Wo div 2) < unat (Wo div 2)"
    using le sub by linarith
  then have x': "x - Wo div 2 < Wo div 2"
    by (simp add: word_less_nat_alt)
  have ux: "unat (Wo div 2) + unat (x - Wo div 2) = unat x"
    using le sub by linarith
  from process_scaled_right [OF fit y x' c]
  show ?thesis
    by (simp only: ux right_src_x_def Let_def)
qed

theorem stereo_right_half_witness:
  "unat (20 :: u32) * 3 * unat (2 :: u32) < 2 ^ 32 \<and> even (unat (20 :: u32))
   \<and> (20 :: u32) div 2 \<le> 19 \<and> (19 :: u32) < 20 \<and> (1 :: u32) < 2 \<and> (2 :: nat) < 3
   \<and> snd (process_scaled (\<lambda>i. of_nat i) 40 4 160 4 (\<lambda>i. 0) 20 2 (Finite (Flt 1 0)) (f32_lit 3 100))
         (unat (1 :: u32) * (unat (20 :: u32) * 3) + unat (19 :: u32) * 3 + 2)
       = (of_nat (2 * 160 + 37 * 4 + 2) :: u8)"
proof -
  have h: "unat (20 :: u32) * 3 * unat (2 :: u32) < 2 ^ 32" "even (unat (20 :: u32))"
    "(20 :: u32) div 2 \<le> 19" "(19 :: u32) < 20" "(1 :: u32) < 2" "(2 :: nat) < 3"
    by simp_all
  have "snd (process_scaled (\<lambda>i. of_nat i) 40 4 160 4 (\<lambda>i. 0) 20 2 (Finite (Flt 1 0)) (f32_lit 3 100))
         (unat (1 :: u32) * (unat (20 :: u32) * 3) + unat (19 :: u32) * 3 + 2)
       = (of_nat (2 * 160 + 37 * 4 + 2) :: u8)"
    using stereo_right_half [OF h, where input = "\<lambda>i. of_nat i :: u8" and Wi = 40 and Hi = 4
        and pitch = 160 and ch = 4 and ds = "Finite (Flt 1 0)" and es = "f32_lit 3 100"]
    by (simp add: eval_sep_40 eval_x_scale_40_10 eval_y_scale_4_2 eval_column_9 eval_row_1)
  with h show ?thesis by blast
qed

text \<open>
  C2. The left half, on the frame of the specification's stereo scenario: 1920x1080 BGRA
  in, 960x540 out, \<open>eye_separation = 0.03f\<close>, so \<open>sep = 57\<close>; the input byte at offset
  \<open>i\<close> is \<open>i mod 256\<close>. For the output pixel \<open>(479, 0)\<close> the claimed source column is
  \<open>min(1916, 1920 - 57 - 1) = 1862\<close>, but the shaper copies column 1916: the clamp of the
  left eye is inside \<open>if (src_x + separation_pixels < input_width)\<close>, where it changes
  nothing.
\<close>

theorem stereo_left_clamp_not_applied:
  "(let input = (\<lambda>i. of_nat i :: u8);
        es = f32_lit 3 100;
        out = snd (process_scaled input 1920 1080 7680 4 (\<lambda>i. 0) 960 540 (Finite (Flt 1 (- 1))) es);
        sep = f32_to_u32 (f32_mul (f32_of_u32 1920) es);
        sx_scale = f32_div (f32_of_u32 1920) (f32_of_u32 (960 div 2));
        floor_x = f32_to_u32 (f32_mul (f32_of_u32 479) sx_scale);
        claimed_sx = min floor_x (1920 - sep - 1)
    in sep = 57 \<and> floor_x = 1916 \<and> claimed_sx = 1862
     \<and> out (0 * (960 * 3) + 479 * 3 + 0) = input (0 * 7680 + 1916 * 4 + 0)
     \<and> input (0 * 7680 + 1916 * 4 + 0) = 240
     \<and> input (0 * 7680 + 1862 * 4 + 0) = 24)"
proof -
  have h: "unat (960 :: u32) * 3 * unat (540 :: u32) < 2 ^ 32" "(0 :: u32) < 540"
    "(479 :: u32) < 960 div 2" "(0 :: nat) < 3"
    by simp_all
  have sep: "f32_to_u32 (f32_mul (f32_of_u32 1920) (f32_lit 3 100)) = 57"
    by (simp add: fp_eval)
  have sc: "f32_div (f32_of_u32 1920) (f32_of_u32 480) = Finite (Flt 8388608 (- 21))"
    by (simp add: fp_eval)
  have fx: "f32_to_u32 (f32_mul (f32_of_u32 479) (Finite (Flt 8388608 (- 21)))) = 1916"
    by (simp add: fp_eval)
  have sy: "f32_to_u32 (f32_mul (f32_of_i32 0)
                          (f32_div (f32_of_u32 1080) (f32_of_u32 540))) = 0"
    by (simp add: fp_eval)
  have lx: "left_src_x 1920 57 (Finite (Flt 8388608 (- 21))) 479 = 1916"
    by (simp add: left_src_x_def fx)
  have out: "snd (process_scaled (\<lambda>i. of_nat i :: u8) 1920 1080 7680 4 (\<lambda>i. 0) 960 540
                (Finite (Flt 1 (- 1))) (f32_lit 3 100)) (0 * (960 * 3) + 479 * 3 + 0)
             = (of_nat (0 * 7680 + 1916 * 4 + 0) :: u8)"
    using process_scaled_left [OF h, where input = "\<lambda>i. of_nat i :: u8" and Wi = 1920
        and Hi = 1080 and pitch = 7680 and ch = 4 and ds = "Finite (Flt 1 (- 1))"
        and es = "f32_lit 3 100"]
    by (simp add: sep sc sy lx)
  have halfw: "(960 :: u32) div 2 = 480"
    by simp
  show ?thesis
    unfolding Let_def halfw sep sc fx using out by simp
qed


section \<open>Configuration file\<close>

subsection \<open>Decimal digits\<close>

lemma is_digit_digit_char: "d < 10 \<Longrightarrow> is_digit (digit_char d)"
  by (simp add: is_digit_def digit_char_def)

lemma digit_char_value: "d < 10 \<Longrightarrow> of_char (digit_char d) - 48 = d"
  by (simp add: digit_char_def)

lemma dec_digits: "list_all is_digit (dec n)"
proof (induction n rule: dec.induct)
  case (1 n)
  show ?case
  proof (cases "n < 10")
    case True
    then show ?thesis by (subst dec.simps) (simp add: is_digit_digit_char)
  next
    case False
    with 1 show ?thesis by (subst dec.simps) (simp add: is_digit_digit_char)
  qed
qed

lemma dec_not_Nil: "dec n \<noteq> []"
  by (subst dec.simps) simp

lemma digits_value_snoc:
  "list_all is_digit xs \<Longrightarrow> is_digit d \<Longrightarrow>
   digits_value acc (xs @ [d]) = digits_value acc xs * 10 + (of_char d - 48)"
  by (induction xs arbitrary: acc) simp_all

lemma digits_value_dec: "digits_value 0 (dec n) = n"
proof (induction n rule: dec.induct)
  case (1 n)
  show ?case
  proof (cases "n < 10")
    case True
    then show ?thesis
      by (subst dec.simps) (simp add: is_digit_digit_char digit_char_value)
  next
    case False
    then have "digits_value 0 (dec n)
        = digits_value 0 (dec (n div 10)) * 10 + (of_char (digit_char (n mod 10)) - 48)"
      by (subst dec.simps) (simp add: digits_value_snoc dec_digits is_digit_digit_char)
    with False 1 show ?thesis
      by (simp add: digit_char_value)
  qed
qed

lemma is_digit_chars:
  assumes "is_digit ch"
  shows "\<not> is_space ch" and "ch \<noteq> CHR ''-''" and "ch \<noteq> CHR ''+''"
    and "ch \<noteq> CHR '':''" and "ch \<noteq> newline" and "ch \<noteq> CHR '' ''" and "ch \<noteq> dquote"
    and "ch \<noteq> carriage_return"
  using assms
  by (auto simp: is_digit_def is_space_def newline_def dquote_def carriage_return_def)

lemma token_digits: "xs \<noteq> [] \<Longrightarrow> list_all is_digit xs \<Longrightarrow> token xs"
  by (auto simp: token_def list_all_iff dest: is_digit_chars)

lemma token_dec: "token (dec n)"
  by (rule token_digits [OF dec_not_Nil dec_digits])

lemma stoi_digits:
  assumes "xs \<noteq> []" and "list_all is_digit xs" and "digits_value 0 xs < 2 ^ 31"
  shows "stoi xs = Inr (int (digits_value 0 xs))"
proof -
  from assms(1) obtain ch rest where xs: "xs = ch # rest" by (cases xs) auto
  with assms(2) have d: "is_digit ch" by simp
  from assms(3) have "int (digits_value 0 xs) < 2 ^ 31"
    by (metis of_nat_less_iff of_nat_numeral of_nat_power)
  then show ?thesis
    using is_digit_chars(1-3) [OF d] d
    by (simp add: stoi_def xs Let_def del: digits_value.simps)
qed

lemma stoi_dec: "n < 2 ^ 31 \<Longrightarrow> stoi (dec n) = Inr (int n)"
  using stoi_digits [OF dec_not_Nil dec_digits, of n] by (simp add: digits_value_dec)

lemma stoi_minus_dec:
  assumes "0 < n" "n \<le> 2 ^ 31"
  shows "stoi (CHR ''-'' # dec n) = Inr (- int n)"
proof -
  obtain ch rest where xs: "dec n = ch # rest" using dec_not_Nil [of n] by (cases "dec n") auto
  with dec_digits [of n] have d: "is_digit ch" by simp
  have v: "digits_value 0 (ch # rest) = n" using digits_value_dec [of n] by (simp only: xs)
  from assms(2) have "int n \<le> 2 ^ 31"
    by (metis of_nat_le_iff of_nat_numeral of_nat_power)
  then show ?thesis
    using d v by (simp add: stoi_def xs Let_def is_space_def del: digits_value.simps)
qed

subsection \<open>Writing and reading one value\<close>

lemma with_int_show_u32:
  "unat w < 2 ^ 31 \<Longrightarrow> with_int (show_u32 w) g = Inr (g (uint w))"
  by (simp add: with_int_def show_u32_def stoi_dec)

lemma with_int_show_u16: "with_int (show_u16 w) g = Inr (g (uint w))"
proof -
  have "unat w < 2 ^ 16" using unsigned_less [of w, where 'a = nat] by simp
  then have "unat w < 2 ^ 31" by simp
  then show ?thesis by (simp add: with_int_def show_u16_def stoi_dec)
qed

lemma with_int_show_i32: "with_int (show_i32 w) g = Inr (g (sint w))"
proof (cases "sint w < 0")
  case True
  have "- (2 ^ 31) \<le> sint w" using sint_ge [of w] by simp
  with True have "0 < nat (- sint w)" "nat (- sint w) \<le> 2 ^ 31" by simp_all
  from stoi_minus_dec [OF this] True show ?thesis
    by (simp add: with_int_def show_i32_def)
next
  case False
  have "sint w < 2 ^ 31" using sint_lt [of w] by simp
  with False have "nat (sint w) < 2 ^ 31" by simp
  from stoi_dec [OF this] False show ?thesis
    by (simp add: with_int_def show_i32_def)
qed

lemma token_show_u32: "token (show_u32 w)"
  by (simp add: show_u32_def token_dec)

lemma token_show_u16: "token (show_u16 w)"
  by (simp add: show_u16_def token_dec)

lemma token_show_i32: "token (show_i32 w)"
  using token_dec [of "nat (- sint w)"] token_dec [of "nat (sint w)"]
  by (simp add: show_i32_def token_def newline_def dquote_def carriage_return_def)

lemma token_show_bool: "token (show_bool b)"
  by (simp add: show_bool_def token_def newline_def dquote_def carriage_return_def)

lemma token_show_method: "token (show_method m)"
  by (cases m) (simp_all add: token_def newline_def dquote_def carriage_return_def)

lemma parse_bool_show_bool: "parse_bool (show_bool b) = b"
  by (simp add: parse_bool_def show_bool_def)

lemma load_method_show_method: "load_method (show_method m) c = c\<lparr>compression_method := m\<rparr>"
  by (cases m) (simp_all add: load_method_def)

lemma with_float_show:
  "stof io (show_f32 io x) = Inr x \<Longrightarrow> with_float io (show_f32 io x) f = Inr (f x)"
  by (simp add: with_float_def)

subsection \<open>Lines\<close>

lemma split_lines_line:
  "list_all (\<lambda>ch. ch \<noteq> newline) l \<Longrightarrow>
   split_lines acc (l @ newline # rest) = (rev acc @ l) # split_lines [] rest"
  by (induction l arbitrary: acc) simp_all

lemma getlines_concat:
  "list_all (\<lambda>l. list_all (\<lambda>ch. ch \<noteq> newline) l) ls \<Longrightarrow>
   split_lines [] (concat (map (\<lambda>l. l @ [newline]) ls)) = ls"
  by (induction ls) (simp_all add: split_lines_line)

lemma token_no_newline: "token v \<Longrightarrow> list_all (\<lambda>ch. ch \<noteq> newline) v"
  by (auto simp: token_def list_all_iff)

lemma token_no_colon: "token v \<Longrightarrow> CHR '':'' \<notin> set v"
  by (auto simp: token_def list_all_iff)

lemma token_quotable:
  assumes "token v"
  shows "quotable v"
proof -
  from assms have ne: "v \<noteq> []"
    and a: "\<And>ch. ch \<in> set v \<Longrightarrow> ch \<noteq> newline \<and> ch \<noteq> CHR '' '' \<and> ch \<noteq> dquote
                \<and> ch \<noteq> carriage_return"
    by (simp_all add: token_def list_all_iff)
  from ne have "hd v \<in> set v" "last v \<in> set v"
    by simp_all
  from a [OF this(1)] a [OF this(2)] a ne show ?thesis
    unfolding quotable_def list_all_iff by blast
qed

lemma kv_no_newline:
  "list_all (\<lambda>ch. ch \<noteq> newline) key \<Longrightarrow> list_all (\<lambda>ch. ch \<noteq> newline) v \<Longrightarrow>
   list_all (\<lambda>ch. ch \<noteq> newline) (kv key v)"
  by (simp add: kv_def newline_def)

lemma kv_quoted_no_newline:
  "list_all (\<lambda>ch. ch \<noteq> newline) key \<Longrightarrow> list_all (\<lambda>ch. ch \<noteq> newline) v \<Longrightarrow>
   list_all (\<lambda>ch. ch \<noteq> newline) (kv_quoted key v)"
  by (simp add: kv_quoted_def newline_def dquote_def)

subsection \<open>The value of a line\<close>

lemma trim_quotable:
  assumes "quotable v"
    and pre: "list_all (\<lambda>ch. ch = CHR '' '' \<or> ch = dquote) pre"
    and post: "list_all (\<lambda>ch. ch = CHR '' '' \<or> ch = dquote \<or> ch = carriage_return) post"
  shows "rev (dropWhile (\<lambda>ch. ch = CHR '' '' \<or> ch = dquote \<or> ch = carriage_return)
                 (rev (dropWhile (\<lambda>ch. ch = CHR '' '' \<or> ch = dquote) (pre @ v @ post))))
         = v"
proof -
  from assms(1) have ne: "v \<noteq> []" and h: "\<not> (hd v = CHR '' '' \<or> hd v = dquote)"
    and l: "\<not> (last v = CHR '' '' \<or> last v = dquote \<or> last v = carriage_return)"
    by (simp_all add: quotable_def)
  have front: "dropWhile (\<lambda>ch. ch = CHR '' '' \<or> ch = dquote) (pre @ v @ post) = v @ post"
  proof -
    have "dropWhile (\<lambda>ch. ch = CHR '' '' \<or> ch = dquote) (pre @ v @ post)
        = dropWhile (\<lambda>ch. ch = CHR '' '' \<or> ch = dquote) (v @ post)"
      using pre by (intro dropWhile_append2) (simp add: list_all_iff)
    also have "\<dots> = v @ post"
      using ne h by (cases v) simp_all
    finally show ?thesis .
  qed
  have "dropWhile (\<lambda>ch. ch = CHR '' '' \<or> ch = dquote \<or> ch = carriage_return) (rev post @ rev v)
      = dropWhile (\<lambda>ch. ch = CHR '' '' \<or> ch = dquote \<or> ch = carriage_return) (rev v)"
    using post by (intro dropWhile_append2) (simp add: list_all_iff)
  also have "\<dots> = rev v"
    using ne l by (cases v rule: rev_cases) simp_all
  finally show ?thesis
    by (simp add: front)
qed

lemma parse_value_kv:
  assumes "CHR '':'' \<notin> set key" and "quotable v"
  shows "parse_value (kv key v) = v"
proof -
  have "dropWhile (\<lambda>ch. ch \<noteq> CHR '':'') (kv key v) = CHR '':'' # ([CHR '' ''] @ v @ [])"
    using assms(1) by (simp add: kv_def dropWhile_append)
  then show ?thesis
    using trim_quotable [OF assms(2), of "[CHR '' '']" "[]"]
    by (simp add: parse_value_def)
qed

lemma parse_value_kv_quoted:
  assumes "CHR '':'' \<notin> set key" and "quotable v"
  shows "parse_value (kv_quoted key v) = v"
proof -
  have "dropWhile (\<lambda>ch. ch \<noteq> CHR '':'') (kv_quoted key v)
      = CHR '':'' # ([CHR '' '', dquote] @ v @ [dquote])"
    using assms(1) by (simp add: kv_quoted_def dropWhile_append)
  then show ?thesis
    using trim_quotable [OF assms(2), of "[CHR '' '', dquote]" "[dquote]"]
    by (simp add: parse_value_def)
qed

lemma parse_value_kv_quoted_empty:
  assumes "CHR '':'' \<notin> set key"
  shows "parse_value (kv_quoted key []) = []"
proof -
  have "dropWhile (\<lambda>ch. ch \<noteq> CHR '':'') (kv_quoted key [])
      = CHR '':'' # [CHR '' '', dquote, dquote]"
    using assms(1) by (simp add: kv_quoted_def dropWhile_append)
  then show ?thesis
    by (simp add: parse_value_def)
qed

subsection \<open>Finding a key in a line\<close>

lemma sublist_before_value:
  assumes "CHR '':'' \<notin> set v" and "k \<noteq> []" and "last k = CHR '':''"
  shows "sublist k (p @ v) \<longleftrightarrow> sublist k p"
proof
  assume "sublist k (p @ v)"
  then consider "sublist k p" | "sublist k v"
    | k1 k2 where "k = k1 @ k2" "suffix k1 p" "prefix k2 v"
    by (auto simp: sublist_append)
  then show "sublist k p"
  proof cases
    case 1
    then show ?thesis .
  next
    case 2
    then have "set k \<subseteq> set v" by (rule set_mono_sublist)
    moreover from assms(2,3) have "CHR '':'' \<in> set k" by (metis last_in_set)
    ultimately show ?thesis using assms(1) by blast
  next
    case 3
    show ?thesis
    proof (cases "k2 = []")
      case True
      with 3 show ?thesis by (simp add: suffix_imp_sublist)
    next
      case False
      with 3(1) assms(3) have "last k2 = CHR '':''" by simp
      with False have "CHR '':'' \<in> set k2" by (metis last_in_set)
      moreover from 3(3) have "set k2 \<subseteq> set v" by (rule set_mono_prefix)
      ultimately show ?thesis using assms(1) by blast
    qed
  qed
next
  assume "sublist k p"
  then show "sublist k (p @ v)" by (auto simp: sublist_append)
qed

lemma found_kv:
  assumes "CHR '':'' \<notin> set v" and "k \<noteq> []" and "last k = CHR '':''"
  shows "found (kv key v) k \<longleftrightarrow> sublist k (''  '' @ key @ '':'')"
proof -
  have e: "kv key v = (''  '' @ key @ '':'') @ (CHR '' '' # v)"
    by (simp add: kv_def)
  have n: "CHR '':'' \<notin> set (CHR '' '' # v)"
    using assms(1) by simp
  show ?thesis
    unfolding found_def e by (rule sublist_before_value [OF n assms(2,3)])
qed

lemma found_kv_quoted:
  assumes "CHR '':'' \<notin> set v" and "k \<noteq> []" and "last k = CHR '':''"
  shows "found (kv_quoted key v) k \<longleftrightarrow> sublist k (''  '' @ key @ '':'')"
proof -
  have e: "kv_quoted key v = (''  '' @ key @ '':'') @ (CHR '' '' # dquote # v @ [dquote])"
    by (simp add: kv_quoted_def)
  have n: "CHR '':'' \<notin> set (CHR '' '' # dquote # v @ [dquote])"
    using assms(1) by (simp add: dquote_def)
  show ?thesis
    unfolding found_def e by (rule sublist_before_value [OF n assms(2,3)])
qed

lemma found_host: "found (kv_quoted ''host'' v) ''host:''"
proof -
  have "kv_quoted ''host'' v = ''  '' @ ''host:'' @ (CHR '' '' # dquote # v @ [dquote])"
    by (simp add: kv_quoted_def)
  then show ?thesis
    unfolding found_def by (simp only: sublist_appendI)
qed

subsection \<open>The branch that a line of the file takes\<close>

text \<open>
  A line \<open>key: value\<close> whose value has no colon is taken by the branch of its own key:
  among the keys of its section, the key of the line is the first that the line contains.
\<close>

lemma load_capture_target_fps:
  "CHR '':'' \<notin> set v \<Longrightarrow>
   load_capture (kv ''target_fps'' v) value c = with_int value (\<lambda>n. c\<lparr>target_fps := word_of_int n\<rparr>)"
  by (simp add: load_capture_def found_kv sublist_code)

lemma load_capture_monitor_index:
  "CHR '':'' \<notin> set v \<Longrightarrow>
   load_capture (kv ''monitor_index'' v) value c = with_int value (\<lambda>n. c\<lparr>monitor_index := word_of_int n\<rparr>)"
  by (simp add: load_capture_def found_kv sublist_code)

lemma load_capture_capture_cursor:
  "CHR '':'' \<notin> set v \<Longrightarrow>
   load_capture (kv ''capture_cursor'' v) value c = Inr (c\<lparr>capture_cursor := parse_bool value\<rparr>)"
  by (simp add: load_capture_def found_kv sublist_code)

lemma load_capture_use_gpu_capture:
  "CHR '':'' \<notin> set v \<Longrightarrow>
   load_capture (kv ''use_gpu_capture'' v) value c = Inr (c\<lparr>use_gpu_capture := parse_bool value\<rparr>)"
  by (simp add: load_capture_def found_kv sublist_code)

lemma load_capture_frame_buffer_count:
  "CHR '':'' \<notin> set v \<Longrightarrow>
   load_capture (kv ''frame_buffer_count'' v) value c = with_int value (\<lambda>n. c\<lparr>frame_buffer_count := word_of_int n\<rparr>)"
  by (simp add: load_capture_def found_kv sublist_code)

lemma load_capture_wait_for_vsync:
  "CHR '':'' \<notin> set v \<Longrightarrow>
   load_capture (kv ''wait_for_vsync'' v) value c = Inr (c\<lparr>wait_for_vsync := parse_bool value\<rparr>)"
  by (simp add: load_capture_def found_kv sublist_code)

lemma load_encoder_jpeg_quality:
  "CHR '':'' \<notin> set v \<Longrightarrow>
   load_encoder io (kv ''jpeg_quality'' v) value c = with_int value (\<lambda>n. c\<lparr>jpeg_quality := word_of_int n\<rparr>)"
  by (simp add: load_encoder_def found_kv sublist_code)

lemma load_encoder_downscale_factor:
  "CHR '':'' \<notin> set v \<Longrightarrow>
   load_encoder io (kv ''downscale_factor'' v) value c = with_float io value (\<lambda>x. c\<lparr>downscale_factor := x\<rparr>)"
  by (simp add: load_encoder_def found_kv sublist_code)

lemma load_encoder_output_width:
  "CHR '':'' \<notin> set v \<Longrightarrow>
   load_encoder io (kv ''output_width'' v) value c = with_int value (\<lambda>n. c\<lparr>output_width := word_of_int n\<rparr>)"
  by (simp add: load_encoder_def found_kv sublist_code)

lemma load_encoder_output_height:
  "CHR '':'' \<notin> set v \<Longrightarrow>
   load_encoder io (kv ''output_height'' v) value c = with_int value (\<lambda>n. c\<lparr>output_height := word_of_int n\<rparr>)"
  by (simp add: load_encoder_def found_kv sublist_code)

lemma load_encoder_compression_method:
  "CHR '':'' \<notin> set v \<Longrightarrow>
   load_encoder io (kv ''compression_method'' v) value c = Inr (load_method value c)"
  by (simp add: load_encoder_def found_kv sublist_code)

lemma load_encoder_vr_enabled:
  "CHR '':'' \<notin> set v \<Longrightarrow>
   load_encoder io (kv ''vr_enabled'' v) value c = Inr (c\<lparr>vr_enabled := parse_bool value\<rparr>)"
  by (simp add: load_encoder_def found_kv sublist_code)

lemma load_encoder_eye_separation:
  "CHR '':'' \<notin> set v \<Longrightarrow>
   load_encoder io (kv ''eye_separation'' v) value c = with_float io value (\<lambda>x. c\<lparr>eye_separation := x\<rparr>)"
  by (simp add: load_encoder_def found_kv sublist_code)

lemma load_encoder_use_gpu:
  "CHR '':'' \<notin> set v \<Longrightarrow>
   load_encoder io (kv ''use_gpu'' v) value c = Inr (c\<lparr>use_gpu := parse_bool value\<rparr>)"
  by (simp add: load_encoder_def found_kv sublist_code)

lemma load_encoder_gpu_device_id:
  "CHR '':'' \<notin> set v \<Longrightarrow>
   load_encoder io (kv ''gpu_device_id'' v) value c = with_int value (\<lambda>n. c\<lparr>gpu_device_id := word_of_int n\<rparr>)"
  by (simp add: load_encoder_def found_kv sublist_code)

lemma load_encoder_use_nvenc:
  "CHR '':'' \<notin> set v \<Longrightarrow>
   load_encoder io (kv ''use_nvenc'' v) value c = Inr (c\<lparr>use_nvenc := parse_bool value\<rparr>)"
  by (simp add: load_encoder_def found_kv sublist_code)

lemma load_encoder_use_nvjpeg:
  "CHR '':'' \<notin> set v \<Longrightarrow>
   load_encoder io (kv ''use_nvjpeg'' v) value c = Inr (c\<lparr>use_nvjpeg := parse_bool value\<rparr>)"
  by (simp add: load_encoder_def found_kv sublist_code)

lemma load_encoder_h264_bitrate:
  "CHR '':'' \<notin> set v \<Longrightarrow>
   load_encoder io (kv ''h264_bitrate'' v) value c = with_int value (\<lambda>n. c\<lparr>h264_bitrate := word_of_int n\<rparr>)"
  by (simp add: load_encoder_def found_kv sublist_code)

lemma load_encoder_h264_gop_length:
  "CHR '':'' \<notin> set v \<Longrightarrow>
   load_encoder io (kv ''h264_gop_length'' v) value c = with_int value (\<lambda>n. c\<lparr>h264_gop_length := word_of_int n\<rparr>)"
  by (simp add: load_encoder_def found_kv sublist_code)

lemma load_encoder_h264_low_latency:
  "CHR '':'' \<notin> set v \<Longrightarrow>
   load_encoder io (kv ''h264_low_latency'' v) value c = Inr (c\<lparr>h264_low_latency := parse_bool value\<rparr>)"
  by (simp add: load_encoder_def found_kv sublist_code)

lemma load_network_http_port:
  "CHR '':'' \<notin> set v \<Longrightarrow>
   load_network io (kv ''http_port'' v) value c = with_int value (\<lambda>n. c\<lparr>http_port := word_of_int n\<rparr>)"
  by (simp add: load_network_def found_kv sublist_code)

lemma load_network_port:
  "CHR '':'' \<notin> set v \<Longrightarrow>
   load_network io (kv ''port'' v) value c = with_int value (\<lambda>n. c\<lparr>port := word_of_int n\<rparr>)"
  by (simp add: load_network_def found_kv sublist_code)

lemma load_network_max_clients:
  "CHR '':'' \<notin> set v \<Longrightarrow>
   load_network io (kv ''max_clients'' v) value c = with_int value (\<lambda>n. c\<lparr>max_clients := word_of_int n\<rparr>)"
  by (simp add: load_network_def found_kv sublist_code)

lemma load_network_send_buffer_size:
  "CHR '':'' \<notin> set v \<Longrightarrow>
   load_network io (kv ''send_buffer_size'' v) value c = with_int value (\<lambda>n. c\<lparr>send_buffer_size := word_of_int n\<rparr>)"
  by (simp add: load_network_def found_kv sublist_code)

lemma load_network_ping_interval:
  "CHR '':'' \<notin> set v \<Longrightarrow>
   load_network io (kv ''ping_interval'' v) value c = with_float io value (\<lambda>x. c\<lparr>ping_interval := x\<rparr>)"
  by (simp add: load_network_def found_kv sublist_code)

lemma load_network_use_tcp_nodelay:
  "CHR '':'' \<notin> set v \<Longrightarrow>
   load_network io (kv ''use_tcp_nodelay'' v) value c = Inr (c\<lparr>use_tcp_nodelay := parse_bool value\<rparr>)"
  by (simp add: load_network_def found_kv sublist_code)

lemma load_network_use_cork:
  "CHR '':'' \<notin> set v \<Longrightarrow>
   load_network io (kv ''use_cork'' v) value c = Inr (c\<lparr>use_cork := parse_bool value\<rparr>)"
  by (simp add: load_network_def found_kv sublist_code)

lemma sublist_separator:
  assumes "q \<notin> set k"
  shows "sublist k (p @ q # v) \<longleftrightarrow> sublist k p \<or> sublist k v"
proof
  assume "sublist k (p @ q # v)"
  then consider "sublist k p" | "sublist k (q # v)"
    | k1 k2 where "k = k1 @ k2" "suffix k1 p" "prefix k2 (q # v)"
    by (auto simp: sublist_append)
  then show "sublist k p \<or> sublist k v"
  proof cases
    case 1
    then show ?thesis by simp
  next
    case 2
    then have "prefix k (q # v) \<or> sublist k v"
      by (simp only: sublist_Cons_right)
    moreover have "k = []" if "prefix k (q # v)"
      using that assms by (cases k) auto
    ultimately show ?thesis by auto
  next
    case 3
    have "k2 = []"
      using 3(1,3) assms by (cases k2) auto
    with 3(1,2) show ?thesis
      by (simp add: suffix_imp_sublist)
  qed
next
  assume "sublist k p \<or> sublist k v"
  then show "sublist k (p @ q # v)"
    by (auto simp: sublist_append sublist_Cons_right)
qed

lemma found_static_ip:
  assumes "dquote \<notin> set k" and "k \<noteq> []" and "last k = CHR '':''"
  shows "found (kv_quoted ''static_ip'' v) k \<longleftrightarrow> sublist k ''  static_ip: '' \<or> sublist k v"
proof -
  have e: "kv_quoted ''static_ip'' v = (''  static_ip: '' @ dquote # v) @ [dquote]"
    by (simp add: kv_quoted_def)
  have n: "CHR '':'' \<notin> set [dquote]"
    by (simp add: dquote_def)
  show ?thesis
    unfolding found_def e sublist_before_value [OF n assms(2,3)]
    by (rule sublist_separator [OF assms(1)])
qed

lemma port_in_http_port: "sublist ''port:'' ''http_port:''"
  by (simp add: sublist_code)

lemma load_network_static_ip_text:
  assumes "\<not> sublist ''host:'' v" and "\<not> sublist ''port:'' v"
  shows "load_network io (kv_quoted ''static_ip'' v) value c = Inr (c\<lparr>static_ip := value\<rparr>)"
proof -
  have h: "\<not> sublist ''http_port:'' v"
    using assms(2) port_in_http_port sublist_order.order.trans by blast
  have a: "\<not> found (kv_quoted ''static_ip'' v) ''host:''"
    using assms(1) by (simp add: found_static_ip dquote_def sublist_code)
  have b: "\<not> found (kv_quoted ''static_ip'' v) ''http_port:''"
    using h by (simp add: found_static_ip dquote_def sublist_code)
  have c: "\<not> found (kv_quoted ''static_ip'' v) ''port:''"
    using assms(2) by (simp add: found_static_ip dquote_def sublist_code)
  have d: "found (kv_quoted ''static_ip'' v) ''static_ip:''"
    by (simp add: found_static_ip dquote_def sublist_code)
  show ?thesis
    by (simp add: load_network_def a b c d)
qed

subsection \<open>Reading one line\<close>

lemma load_network_host_any:
  "load_network io (kv_quoted ''host'' v) value c = Inr (c\<lparr>host := value\<rparr>)"
  by (simp add: load_network_def found_host)

lemma kv_shape: "kv key v \<noteq> [] \<and> hd (kv key v) = CHR '' ''"
  by (simp add: kv_def)

lemma kv_quoted_shape: "kv_quoted key v \<noteq> [] \<and> hd (kv_quoted key v) = CHR '' ''"
  by (simp add: kv_quoted_def)

lemma quotable_not_Nil: "quotable v \<Longrightarrow> v \<noteq> []"
  by (simp add: quotable_def)

lemma load_line_value:
  assumes "line \<noteq> [] \<and> hd line = CHR '' ''" and "parse_value line = v" and "v \<noteq> []"
  shows "load_line io (sec, cfg) line =
     (if sec = ''capture''
      then (case load_capture line v (capture cfg) of
              Inl e \<Rightarrow> Inl e
            | Inr cap \<Rightarrow> Inr (sec, cfg\<lparr>capture := cap\<rparr>))
      else if sec = ''encoder''
      then (case load_encoder io line v (encoder cfg) of
              Inl e \<Rightarrow> Inl e
            | Inr enc \<Rightarrow> Inr (sec, cfg\<lparr>encoder := enc\<rparr>))
      else if sec = ''network''
      then (case load_network io line v (network cfg) of
              Inl e \<Rightarrow> Inl e
            | Inr net \<Rightarrow> Inr (sec, cfg\<lparr>network := net\<rparr>))
      else Inr (sec, cfg))"
  using assms by (simp add: load_line_def Let_def)

lemma load_line_empty_value:
  assumes "line \<noteq> [] \<and> hd line = CHR '' ''" and "parse_value line = []"
  shows "load_line io st line = Inr st"
  using assms by (simp add: load_line_def Let_def)

lemma load_line_blank: "load_line io st [] = Inr st"
  by (simp add: load_line_def)

lemma load_line_comment: "load_line io st ''# VR Streamer Configuration'' = Inr st"
  by (simp add: load_line_def)

lemma load_line_capture: "load_line io (sec, cfg) ''capture:'' = Inr (''capture'', cfg)"
  by (simp add: load_line_def)

lemma load_line_encoder: "load_line io (sec, cfg) ''encoder:'' = Inr (''encoder'', cfg)"
  by (simp add: load_line_def)

lemma load_line_network: "load_line io (sec, cfg) ''network:'' = Inr (''network'', cfg)"
  by (simp add: load_line_def)

lemma line_token:
  assumes "token v" and "CHR '':'' \<notin> set key"
  shows "kv key v \<noteq> [] \<and> hd (kv key v) = CHR '' ''" and "parse_value (kv key v) = v"
    and "v \<noteq> []" and "CHR '':'' \<notin> set v"
  using assms kv_shape [of key v] parse_value_kv [OF assms(2) token_quotable [OF assms(1)]]
    quotable_not_Nil [OF token_quotable [OF assms(1)]] token_no_colon [OF assms(1)]
  by simp_all

lemma line_capture_target_fps:
  assumes "unat w < 2 ^ 31"
  shows "load_line io (''capture'', cfg) (kv ''target_fps'' (show_u32 w))
           = Inr (''capture'', cfg\<lparr>capture := (capture cfg)\<lparr>target_fps := w\<rparr>\<rparr>)"
proof -
  have t: "token (show_u32 w)" by (rule token_show_u32)
  note l = line_token [OF t, of "''target_fps''", simplified]
  show ?thesis
    by (simp add: load_line_value [OF l(1,2,3)]
        load_capture_target_fps [OF l(4)] with_int_show_u32 [OF assms(1)])
qed

lemma line_capture_monitor_index:
  assumes "unat w < 2 ^ 31"
  shows "load_line io (''capture'', cfg) (kv ''monitor_index'' (show_u32 w))
           = Inr (''capture'', cfg\<lparr>capture := (capture cfg)\<lparr>monitor_index := w\<rparr>\<rparr>)"
proof -
  have t: "token (show_u32 w)" by (rule token_show_u32)
  note l = line_token [OF t, of "''monitor_index''", simplified]
  show ?thesis
    by (simp add: load_line_value [OF l(1,2,3)]
        load_capture_monitor_index [OF l(4)] with_int_show_u32 [OF assms(1)])
qed

lemma line_capture_capture_cursor:
  "load_line io (''capture'', cfg) (kv ''capture_cursor'' (show_bool w))
     = Inr (''capture'', cfg\<lparr>capture := (capture cfg)\<lparr>capture_cursor := w\<rparr>\<rparr>)"
proof -
  have t: "token (show_bool w)" by (rule token_show_bool)
  note l = line_token [OF t, of "''capture_cursor''", simplified]
  show ?thesis
    by (simp add: load_line_value [OF l(1,2,3)]
        load_capture_capture_cursor [OF l(4)] parse_bool_show_bool)
qed

lemma line_capture_use_gpu_capture:
  "load_line io (''capture'', cfg) (kv ''use_gpu_capture'' (show_bool w))
     = Inr (''capture'', cfg\<lparr>capture := (capture cfg)\<lparr>use_gpu_capture := w\<rparr>\<rparr>)"
proof -
  have t: "token (show_bool w)" by (rule token_show_bool)
  note l = line_token [OF t, of "''use_gpu_capture''", simplified]
  show ?thesis
    by (simp add: load_line_value [OF l(1,2,3)]
        load_capture_use_gpu_capture [OF l(4)] parse_bool_show_bool)
qed

lemma line_capture_frame_buffer_count:
  assumes "unat w < 2 ^ 31"
  shows "load_line io (''capture'', cfg) (kv ''frame_buffer_count'' (show_u32 w))
           = Inr (''capture'', cfg\<lparr>capture := (capture cfg)\<lparr>frame_buffer_count := w\<rparr>\<rparr>)"
proof -
  have t: "token (show_u32 w)" by (rule token_show_u32)
  note l = line_token [OF t, of "''frame_buffer_count''", simplified]
  show ?thesis
    by (simp add: load_line_value [OF l(1,2,3)]
        load_capture_frame_buffer_count [OF l(4)] with_int_show_u32 [OF assms(1)])
qed

lemma line_capture_wait_for_vsync:
  "load_line io (''capture'', cfg) (kv ''wait_for_vsync'' (show_bool w))
     = Inr (''capture'', cfg\<lparr>capture := (capture cfg)\<lparr>wait_for_vsync := w\<rparr>\<rparr>)"
proof -
  have t: "token (show_bool w)" by (rule token_show_bool)
  note l = line_token [OF t, of "''wait_for_vsync''", simplified]
  show ?thesis
    by (simp add: load_line_value [OF l(1,2,3)]
        load_capture_wait_for_vsync [OF l(4)] parse_bool_show_bool)
qed

lemma line_encoder_jpeg_quality:
  assumes "unat w < 2 ^ 31"
  shows "load_line io (''encoder'', cfg) (kv ''jpeg_quality'' (show_u32 w))
           = Inr (''encoder'', cfg\<lparr>encoder := (encoder cfg)\<lparr>jpeg_quality := w\<rparr>\<rparr>)"
proof -
  have t: "token (show_u32 w)" by (rule token_show_u32)
  note l = line_token [OF t, of "''jpeg_quality''", simplified]
  show ?thesis
    by (simp add: load_line_value [OF l(1,2,3)]
        load_encoder_jpeg_quality [OF l(4)] with_int_show_u32 [OF assms(1)])
qed

lemma line_encoder_downscale_factor:
  assumes "token (show_f32 io w)" and "stof io (show_f32 io w) = Inr w"
  shows "load_line io (''encoder'', cfg) (kv ''downscale_factor'' (show_f32 io w))
           = Inr (''encoder'', cfg\<lparr>encoder := (encoder cfg)\<lparr>downscale_factor := w\<rparr>\<rparr>)"
proof -
  have t: "token (show_f32 io w)" by (rule assms(1))
  note l = line_token [OF t, of "''downscale_factor''", simplified]
  show ?thesis
    by (simp add: load_line_value [OF l(1,2,3)]
        load_encoder_downscale_factor [OF l(4)] with_float_show [OF assms(2)])
qed

lemma line_encoder_output_width:
  assumes "unat w < 2 ^ 31"
  shows "load_line io (''encoder'', cfg) (kv ''output_width'' (show_u32 w))
           = Inr (''encoder'', cfg\<lparr>encoder := (encoder cfg)\<lparr>output_width := w\<rparr>\<rparr>)"
proof -
  have t: "token (show_u32 w)" by (rule token_show_u32)
  note l = line_token [OF t, of "''output_width''", simplified]
  show ?thesis
    by (simp add: load_line_value [OF l(1,2,3)]
        load_encoder_output_width [OF l(4)] with_int_show_u32 [OF assms(1)])
qed

lemma line_encoder_output_height:
  assumes "unat w < 2 ^ 31"
  shows "load_line io (''encoder'', cfg) (kv ''output_height'' (show_u32 w))
           = Inr (''encoder'', cfg\<lparr>encoder := (encoder cfg)\<lparr>output_height := w\<rparr>\<rparr>)"
proof -
  have t: "token (show_u32 w)" by (rule token_show_u32)
  note l = line_token [OF t, of "''output_height''", simplified]
  show ?thesis
    by (simp add: load_line_value [OF l(1,2,3)]
        load_encoder_output_height [OF l(4)] with_int_show_u32 [OF assms(1)])
qed

lemma line_encoder_compression_method:
  "load_line io (''encoder'', cfg) (kv ''compression_method'' (show_method w))
     = Inr (''encoder'', cfg\<lparr>encoder := (encoder cfg)\<lparr>compression_method := w\<rparr>\<rparr>)"
proof -
  have t: "token (show_method w)" by (rule token_show_method)
  note l = line_token [OF t, of "''compression_method''", simplified]
  show ?thesis
    by (simp add: load_line_value [OF l(1,2,3)]
        load_encoder_compression_method [OF l(4)] load_method_show_method)
qed

lemma line_encoder_vr_enabled:
  "load_line io (''encoder'', cfg) (kv ''vr_enabled'' (show_bool w))
     = Inr (''encoder'', cfg\<lparr>encoder := (encoder cfg)\<lparr>vr_enabled := w\<rparr>\<rparr>)"
proof -
  have t: "token (show_bool w)" by (rule token_show_bool)
  note l = line_token [OF t, of "''vr_enabled''", simplified]
  show ?thesis
    by (simp add: load_line_value [OF l(1,2,3)]
        load_encoder_vr_enabled [OF l(4)] parse_bool_show_bool)
qed

lemma line_encoder_eye_separation:
  assumes "token (show_f32 io w)" and "stof io (show_f32 io w) = Inr w"
  shows "load_line io (''encoder'', cfg) (kv ''eye_separation'' (show_f32 io w))
           = Inr (''encoder'', cfg\<lparr>encoder := (encoder cfg)\<lparr>eye_separation := w\<rparr>\<rparr>)"
proof -
  have t: "token (show_f32 io w)" by (rule assms(1))
  note l = line_token [OF t, of "''eye_separation''", simplified]
  show ?thesis
    by (simp add: load_line_value [OF l(1,2,3)]
        load_encoder_eye_separation [OF l(4)] with_float_show [OF assms(2)])
qed

lemma line_encoder_use_gpu:
  "load_line io (''encoder'', cfg) (kv ''use_gpu'' (show_bool w))
     = Inr (''encoder'', cfg\<lparr>encoder := (encoder cfg)\<lparr>use_gpu := w\<rparr>\<rparr>)"
proof -
  have t: "token (show_bool w)" by (rule token_show_bool)
  note l = line_token [OF t, of "''use_gpu''", simplified]
  show ?thesis
    by (simp add: load_line_value [OF l(1,2,3)] load_encoder_use_gpu [OF l(4)] parse_bool_show_bool)
qed

lemma line_encoder_gpu_device_id:
  "load_line io (''encoder'', cfg) (kv ''gpu_device_id'' (show_i32 w))
     = Inr (''encoder'', cfg\<lparr>encoder := (encoder cfg)\<lparr>gpu_device_id := w\<rparr>\<rparr>)"
proof -
  have t: "token (show_i32 w)" by (rule token_show_i32)
  note l = line_token [OF t, of "''gpu_device_id''", simplified]
  show ?thesis
    by (simp add: load_line_value [OF l(1,2,3)]
        load_encoder_gpu_device_id [OF l(4)] with_int_show_i32)
qed

lemma line_encoder_use_nvenc:
  "load_line io (''encoder'', cfg) (kv ''use_nvenc'' (show_bool w))
     = Inr (''encoder'', cfg\<lparr>encoder := (encoder cfg)\<lparr>use_nvenc := w\<rparr>\<rparr>)"
proof -
  have t: "token (show_bool w)" by (rule token_show_bool)
  note l = line_token [OF t, of "''use_nvenc''", simplified]
  show ?thesis
    by (simp add: load_line_value [OF l(1,2,3)]
        load_encoder_use_nvenc [OF l(4)] parse_bool_show_bool)
qed

lemma line_encoder_use_nvjpeg:
  "load_line io (''encoder'', cfg) (kv ''use_nvjpeg'' (show_bool w))
     = Inr (''encoder'', cfg\<lparr>encoder := (encoder cfg)\<lparr>use_nvjpeg := w\<rparr>\<rparr>)"
proof -
  have t: "token (show_bool w)" by (rule token_show_bool)
  note l = line_token [OF t, of "''use_nvjpeg''", simplified]
  show ?thesis
    by (simp add: load_line_value [OF l(1,2,3)]
        load_encoder_use_nvjpeg [OF l(4)] parse_bool_show_bool)
qed

lemma line_encoder_h264_bitrate:
  assumes "unat w < 2 ^ 31"
  shows "load_line io (''encoder'', cfg) (kv ''h264_bitrate'' (show_u32 w))
           = Inr (''encoder'', cfg\<lparr>encoder := (encoder cfg)\<lparr>h264_bitrate := w\<rparr>\<rparr>)"
proof -
  have t: "token (show_u32 w)" by (rule token_show_u32)
  note l = line_token [OF t, of "''h264_bitrate''", simplified]
  show ?thesis
    by (simp add: load_line_value [OF l(1,2,3)]
        load_encoder_h264_bitrate [OF l(4)] with_int_show_u32 [OF assms(1)])
qed

lemma line_encoder_h264_gop_length:
  assumes "unat w < 2 ^ 31"
  shows "load_line io (''encoder'', cfg) (kv ''h264_gop_length'' (show_u32 w))
           = Inr (''encoder'', cfg\<lparr>encoder := (encoder cfg)\<lparr>h264_gop_length := w\<rparr>\<rparr>)"
proof -
  have t: "token (show_u32 w)" by (rule token_show_u32)
  note l = line_token [OF t, of "''h264_gop_length''", simplified]
  show ?thesis
    by (simp add: load_line_value [OF l(1,2,3)]
        load_encoder_h264_gop_length [OF l(4)] with_int_show_u32 [OF assms(1)])
qed

lemma line_encoder_h264_low_latency:
  "load_line io (''encoder'', cfg) (kv ''h264_low_latency'' (show_bool w))
     = Inr (''encoder'', cfg\<lparr>encoder := (encoder cfg)\<lparr>h264_low_latency := w\<rparr>\<rparr>)"
proof -
  have t: "token (show_bool w)" by (rule token_show_bool)
  note l = line_token [OF t, of "''h264_low_latency''", simplified]
  show ?thesis
    by (simp add: load_line_value [OF l(1,2,3)]
        load_encoder_h264_low_latency [OF l(4)] parse_bool_show_bool)
qed

lemma line_network_http_port:
  "load_line io (''network'', cfg) (kv ''http_port'' (show_u16 w))
     = Inr (''network'', cfg\<lparr>network := (network cfg)\<lparr>http_port := w\<rparr>\<rparr>)"
proof -
  have t: "token (show_u16 w)" by (rule token_show_u16)
  note l = line_token [OF t, of "''http_port''", simplified]
  show ?thesis
    by (simp add: load_line_value [OF l(1,2,3)] load_network_http_port [OF l(4)] with_int_show_u16)
qed

lemma line_network_port:
  "load_line io (''network'', cfg) (kv ''port'' (show_u16 w))
     = Inr (''network'', cfg\<lparr>network := (network cfg)\<lparr>port := w\<rparr>\<rparr>)"
proof -
  have t: "token (show_u16 w)" by (rule token_show_u16)
  note l = line_token [OF t, of "''port''", simplified]
  show ?thesis
    by (simp add: load_line_value [OF l(1,2,3)] load_network_port [OF l(4)] with_int_show_u16)
qed

lemma line_network_max_clients:
  assumes "unat w < 2 ^ 31"
  shows "load_line io (''network'', cfg) (kv ''max_clients'' (show_u32 w))
           = Inr (''network'', cfg\<lparr>network := (network cfg)\<lparr>max_clients := w\<rparr>\<rparr>)"
proof -
  have t: "token (show_u32 w)" by (rule token_show_u32)
  note l = line_token [OF t, of "''max_clients''", simplified]
  show ?thesis
    by (simp add: load_line_value [OF l(1,2,3)]
        load_network_max_clients [OF l(4)] with_int_show_u32 [OF assms(1)])
qed

lemma line_network_send_buffer_size:
  assumes "unat w < 2 ^ 31"
  shows "load_line io (''network'', cfg) (kv ''send_buffer_size'' (show_u32 w))
           = Inr (''network'', cfg\<lparr>network := (network cfg)\<lparr>send_buffer_size := w\<rparr>\<rparr>)"
proof -
  have t: "token (show_u32 w)" by (rule token_show_u32)
  note l = line_token [OF t, of "''send_buffer_size''", simplified]
  show ?thesis
    by (simp add: load_line_value [OF l(1,2,3)]
        load_network_send_buffer_size [OF l(4)] with_int_show_u32 [OF assms(1)])
qed

lemma line_network_ping_interval:
  assumes "token (show_f32 io w)" and "stof io (show_f32 io w) = Inr w"
  shows "load_line io (''network'', cfg) (kv ''ping_interval'' (show_f32 io w))
           = Inr (''network'', cfg\<lparr>network := (network cfg)\<lparr>ping_interval := w\<rparr>\<rparr>)"
proof -
  have t: "token (show_f32 io w)" by (rule assms(1))
  note l = line_token [OF t, of "''ping_interval''", simplified]
  show ?thesis
    by (simp add: load_line_value [OF l(1,2,3)]
        load_network_ping_interval [OF l(4)] with_float_show [OF assms(2)])
qed

lemma line_network_use_tcp_nodelay:
  "load_line io (''network'', cfg) (kv ''use_tcp_nodelay'' (show_bool w))
     = Inr (''network'', cfg\<lparr>network := (network cfg)\<lparr>use_tcp_nodelay := w\<rparr>\<rparr>)"
proof -
  have t: "token (show_bool w)" by (rule token_show_bool)
  note l = line_token [OF t, of "''use_tcp_nodelay''", simplified]
  show ?thesis
    by (simp add: load_line_value [OF l(1,2,3)]
        load_network_use_tcp_nodelay [OF l(4)] parse_bool_show_bool)
qed

lemma line_network_use_cork:
  "load_line io (''network'', cfg) (kv ''use_cork'' (show_bool w))
     = Inr (''network'', cfg\<lparr>network := (network cfg)\<lparr>use_cork := w\<rparr>\<rparr>)"
proof -
  have t: "token (show_bool w)" by (rule token_show_bool)
  note l = line_token [OF t, of "''use_cork''", simplified]
  show ?thesis
    by (simp add: load_line_value [OF l(1,2,3)]
        load_network_use_cork [OF l(4)] parse_bool_show_bool)
qed

lemma line_network_host:
  assumes "quotable v"
  shows "load_line io (''network'', cfg) (kv_quoted ''host'' v)
       = Inr (''network'', cfg\<lparr>network := (network cfg)\<lparr>host := v\<rparr>\<rparr>)"
proof -
  have p: "parse_value (kv_quoted ''host'' v) = v"
    using assms by (simp add: parse_value_kv_quoted)
  show ?thesis
    by (simp add: load_line_value [OF kv_quoted_shape p quotable_not_Nil [OF assms]]
        load_network_host_any)
qed

lemma line_network_static_ip:
  assumes "quotable v" and "\<not> sublist ''host:'' v" and "\<not> sublist ''port:'' v"
  shows "load_line io (''network'', cfg) (kv_quoted ''static_ip'' v)
       = Inr (''network'', cfg\<lparr>network := (network cfg)\<lparr>static_ip := v\<rparr>\<rparr>)"
proof -
  have p: "parse_value (kv_quoted ''static_ip'' v) = v"
    using assms(1) by (simp add: parse_value_kv_quoted)
  show ?thesis
    by (simp add: load_line_value [OF kv_quoted_shape p quotable_not_Nil [OF assms(1)]]
        load_network_static_ip_text [OF assms(2,3)])
qed

lemma line_network_static_ip_empty:
  "load_line io st (kv_quoted ''static_ip'' []) = Inr st"
  by (rule load_line_empty_value [OF kv_quoted_shape]) (simp add: parse_value_kv_quoted_empty)

subsection \<open>Reading a section, and the file\<close>

lemma capture_all:
  "r\<lparr>target_fps := target_fps s, monitor_index := monitor_index s,
      capture_cursor := capture_cursor s, use_gpu_capture := use_gpu_capture s,
      frame_buffer_count := frame_buffer_count s, wait_for_vsync := wait_for_vsync s\<rparr>
   = (s :: CaptureConfig)"
  by (cases r, cases s) simp

lemma encoder_all:
  "r\<lparr>jpeg_quality := jpeg_quality s, downscale_factor := downscale_factor s,
      output_width := output_width s, output_height := output_height s,
      compression_method := compression_method s, vr_enabled := vr_enabled s,
      eye_separation := eye_separation s, use_gpu := use_gpu s,
      gpu_device_id := gpu_device_id s, use_nvenc := use_nvenc s, use_nvjpeg := use_nvjpeg s,
      h264_bitrate := h264_bitrate s, h264_gop_length := h264_gop_length s,
      h264_low_latency := h264_low_latency s\<rparr>
   = (s :: EncoderConfig)"
  by (cases r, cases s) simp

lemma network_all:
  "r\<lparr>host := host s, port := port s, http_port := http_port s, static_ip := static_ip s,
      max_clients := max_clients s, send_buffer_size := send_buffer_size s,
      ping_interval := ping_interval s, use_tcp_nodelay := use_tcp_nodelay s,
      use_cork := use_cork s\<rparr>
   = (s :: NetworkConfig)"
  by (cases r, cases s) simp

lemma network_all_but_static_ip:
  "static_ip r = static_ip s \<Longrightarrow>
   r\<lparr>host := host s, port := port s, http_port := http_port s,
      max_clients := max_clients s, send_buffer_size := send_buffer_size s,
      ping_interval := ping_interval s, use_tcp_nodelay := use_tcp_nodelay s,
      use_cork := use_cork s\<rparr>
   = (s :: NetworkConfig)"
  by (cases r, cases s) simp

lemma config_all:
  "r\<lparr>capture := capture s, encoder := encoder s, network := network s\<rparr> = (s :: Config)"
  by (cases r, cases s) simp

lemma capture_lines:
  assumes "fits_int (target_fps cap)" and "fits_int (monitor_index cap)"
    and "fits_int (frame_buffer_count cap)"
  shows "load_lines io (''capture'', cfg)
           (kv ''target_fps'' (show_u32 (target_fps cap))
            # kv ''monitor_index'' (show_u32 (monitor_index cap))
            # kv ''capture_cursor'' (show_bool (capture_cursor cap))
            # kv ''use_gpu_capture'' (show_bool (use_gpu_capture cap))
            # kv ''frame_buffer_count'' (show_u32 (frame_buffer_count cap))
            # kv ''wait_for_vsync'' (show_bool (wait_for_vsync cap))
            # rest)
         = load_lines io (''capture'', cfg\<lparr>capture := cap\<rparr>) rest"
proof -
  note f = assms [unfolded fits_int_def]
  have "load_lines io (''capture'', cfg)
           (kv ''target_fps'' (show_u32 (target_fps cap))
            # kv ''monitor_index'' (show_u32 (monitor_index cap))
            # kv ''capture_cursor'' (show_bool (capture_cursor cap))
            # kv ''use_gpu_capture'' (show_bool (use_gpu_capture cap))
            # kv ''frame_buffer_count'' (show_u32 (frame_buffer_count cap))
            # kv ''wait_for_vsync'' (show_bool (wait_for_vsync cap))
            # rest)
      = load_lines io (''capture'', cfg\<lparr>capture := (capture cfg)
          \<lparr>target_fps := target_fps cap, monitor_index := monitor_index cap,
           capture_cursor := capture_cursor cap, use_gpu_capture := use_gpu_capture cap,
           frame_buffer_count := frame_buffer_count cap,
           wait_for_vsync := wait_for_vsync cap\<rparr>\<rparr>) rest"
    by (simp add: line_capture_target_fps [OF f(1)] line_capture_monitor_index [OF f(2)]
        line_capture_capture_cursor line_capture_use_gpu_capture
        line_capture_frame_buffer_count [OF f(3)] line_capture_wait_for_vsync)
  then show ?thesis
    by (simp only: capture_all)
qed

lemma encoder_lines:
  assumes "fits_int (jpeg_quality enc)" and "fits_int (output_width enc)"
    and "fits_int (output_height enc)" and "fits_int (h264_bitrate enc)"
    and "fits_int (h264_gop_length enc)"
    and "reads_back io (downscale_factor enc)" and "reads_back io (eye_separation enc)"
  shows "load_lines io (''encoder'', cfg)
           (kv ''jpeg_quality'' (show_u32 (jpeg_quality enc))
            # kv ''downscale_factor'' (show_f32 io (downscale_factor enc))
            # kv ''output_width'' (show_u32 (output_width enc))
            # kv ''output_height'' (show_u32 (output_height enc))
            # kv ''compression_method'' (show_method (compression_method enc))
            # kv ''vr_enabled'' (show_bool (vr_enabled enc))
            # kv ''eye_separation'' (show_f32 io (eye_separation enc))
            # kv ''use_gpu'' (show_bool (use_gpu enc))
            # kv ''gpu_device_id'' (show_i32 (gpu_device_id enc))
            # kv ''use_nvenc'' (show_bool (use_nvenc enc))
            # kv ''use_nvjpeg'' (show_bool (use_nvjpeg enc))
            # kv ''h264_bitrate'' (show_u32 (h264_bitrate enc))
            # kv ''h264_gop_length'' (show_u32 (h264_gop_length enc))
            # kv ''h264_low_latency'' (show_bool (h264_low_latency enc))
            # rest)
         = load_lines io (''encoder'', cfg\<lparr>encoder := enc\<rparr>) rest"
proof -
  note f = assms(1-5) [unfolded fits_int_def]
  from assms(6,7) have d: "token (show_f32 io (downscale_factor enc))"
      "stof io (show_f32 io (downscale_factor enc)) = Inr (downscale_factor enc)"
    and e: "token (show_f32 io (eye_separation enc))"
      "stof io (show_f32 io (eye_separation enc)) = Inr (eye_separation enc)"
    by (simp_all add: reads_back_def)
  have "load_lines io (''encoder'', cfg)
           (kv ''jpeg_quality'' (show_u32 (jpeg_quality enc))
            # kv ''downscale_factor'' (show_f32 io (downscale_factor enc))
            # kv ''output_width'' (show_u32 (output_width enc))
            # kv ''output_height'' (show_u32 (output_height enc))
            # kv ''compression_method'' (show_method (compression_method enc))
            # kv ''vr_enabled'' (show_bool (vr_enabled enc))
            # kv ''eye_separation'' (show_f32 io (eye_separation enc))
            # kv ''use_gpu'' (show_bool (use_gpu enc))
            # kv ''gpu_device_id'' (show_i32 (gpu_device_id enc))
            # kv ''use_nvenc'' (show_bool (use_nvenc enc))
            # kv ''use_nvjpeg'' (show_bool (use_nvjpeg enc))
            # kv ''h264_bitrate'' (show_u32 (h264_bitrate enc))
            # kv ''h264_gop_length'' (show_u32 (h264_gop_length enc))
            # kv ''h264_low_latency'' (show_bool (h264_low_latency enc))
            # rest)
      = load_lines io (''encoder'', cfg\<lparr>encoder := (encoder cfg)
          \<lparr>jpeg_quality := jpeg_quality enc, downscale_factor := downscale_factor enc,
           output_width := output_width enc, output_height := output_height enc,
           compression_method := compression_method enc, vr_enabled := vr_enabled enc,
           eye_separation := eye_separation enc, use_gpu := use_gpu enc,
           gpu_device_id := gpu_device_id enc, use_nvenc := use_nvenc enc,
           use_nvjpeg := use_nvjpeg enc, h264_bitrate := h264_bitrate enc,
           h264_gop_length := h264_gop_length enc,
           h264_low_latency := h264_low_latency enc\<rparr>\<rparr>) rest"
    by (simp add: line_encoder_jpeg_quality [OF f(1)] line_encoder_downscale_factor [OF d]
        line_encoder_output_width [OF f(2)] line_encoder_output_height [OF f(3)]
        line_encoder_compression_method line_encoder_vr_enabled
        line_encoder_eye_separation [OF e] line_encoder_use_gpu line_encoder_gpu_device_id
        line_encoder_use_nvenc line_encoder_use_nvjpeg line_encoder_h264_bitrate [OF f(4)]
        line_encoder_h264_gop_length [OF f(5)] line_encoder_h264_low_latency)
  then show ?thesis
    by (simp only: encoder_all)
qed

lemma network_lines:
  assumes "fits_int (max_clients net)" and "fits_int (send_buffer_size net)"
    and "reads_back io (ping_interval net)" and "quotable (host net)"
    and "static_ip net = [] \<and> static_ip (network cfg) = []
         \<or> quotable (static_ip net) \<and> \<not> sublist ''host:'' (static_ip net)
           \<and> \<not> sublist ''port:'' (static_ip net)"
  shows "load_lines io (''network'', cfg)
           (kv_quoted ''host'' (host net)
            # kv ''port'' (show_u16 (port net))
            # kv ''http_port'' (show_u16 (http_port net))
            # kv_quoted ''static_ip'' (static_ip net)
            # kv ''max_clients'' (show_u32 (max_clients net))
            # kv ''send_buffer_size'' (show_u32 (send_buffer_size net))
            # kv ''ping_interval'' (show_f32 io (ping_interval net))
            # kv ''use_tcp_nodelay'' (show_bool (use_tcp_nodelay net))
            # kv ''use_cork'' (show_bool (use_cork net))
            # rest)
         = load_lines io (''network'', cfg\<lparr>network := net\<rparr>) rest"
proof -
  note f = assms(1,2) [unfolded fits_int_def]
  from assms(3) have p: "token (show_f32 io (ping_interval net))"
      "stof io (show_f32 io (ping_interval net)) = Inr (ping_interval net)"
    by (simp_all add: reads_back_def)
  note rest_lines = line_network_port line_network_http_port
    line_network_max_clients [OF f(1)] line_network_send_buffer_size [OF f(2)]
    line_network_ping_interval [OF p] line_network_use_tcp_nodelay line_network_use_cork
  from assms(5) show ?thesis
  proof
    assume a: "static_ip net = [] \<and> static_ip (network cfg) = []"
    then have s: "static_ip (network cfg) = static_ip net"
      by simp
    have "load_lines io (''network'', cfg)
           (kv_quoted ''host'' (host net)
            # kv ''port'' (show_u16 (port net))
            # kv ''http_port'' (show_u16 (http_port net))
            # kv_quoted ''static_ip'' []
            # kv ''max_clients'' (show_u32 (max_clients net))
            # kv ''send_buffer_size'' (show_u32 (send_buffer_size net))
            # kv ''ping_interval'' (show_f32 io (ping_interval net))
            # kv ''use_tcp_nodelay'' (show_bool (use_tcp_nodelay net))
            # kv ''use_cork'' (show_bool (use_cork net))
            # rest)
      = load_lines io (''network'', cfg\<lparr>network := (network cfg)
          \<lparr>host := host net, port := port net, http_port := http_port net,
           max_clients := max_clients net, send_buffer_size := send_buffer_size net,
           ping_interval := ping_interval net, use_tcp_nodelay := use_tcp_nodelay net,
           use_cork := use_cork net\<rparr>\<rparr>) rest"
      by (simp add: line_network_host [OF assms(4)] line_network_static_ip_empty rest_lines)
    then show ?thesis
      using a by (simp only: network_all_but_static_ip [OF s])
  next
    assume a: "quotable (static_ip net) \<and> \<not> sublist ''host:'' (static_ip net)
           \<and> \<not> sublist ''port:'' (static_ip net)"
    then have a': "quotable (static_ip net)" "\<not> sublist ''host:'' (static_ip net)"
      "\<not> sublist ''port:'' (static_ip net)"
      by simp_all
    have "load_lines io (''network'', cfg)
           (kv_quoted ''host'' (host net)
            # kv ''port'' (show_u16 (port net))
            # kv ''http_port'' (show_u16 (http_port net))
            # kv_quoted ''static_ip'' (static_ip net)
            # kv ''max_clients'' (show_u32 (max_clients net))
            # kv ''send_buffer_size'' (show_u32 (send_buffer_size net))
            # kv ''ping_interval'' (show_f32 io (ping_interval net))
            # kv ''use_tcp_nodelay'' (show_bool (use_tcp_nodelay net))
            # kv ''use_cork'' (show_bool (use_cork net))
            # rest)
      = load_lines io (''network'', cfg\<lparr>network := (network cfg)
          \<lparr>host := host net, port := port net, http_port := http_port net,
           static_ip := static_ip net,
           max_clients := max_clients net, send_buffer_size := send_buffer_size net,
           ping_interval := ping_interval net, use_tcp_nodelay := use_tcp_nodelay net,
           use_cork := use_cork net\<rparr>\<rparr>) rest"
      by (simp add: line_network_host [OF assms(4)] line_network_static_ip [OF a'] rest_lines)
    then show ?thesis
      by (simp only: network_all)
  qed
qed

lemma load_lines_Cons_ok:
  "load_line io st line = Inr st' \<Longrightarrow> load_lines io st (line # rest) = load_lines io st' rest"
  by simp

lemma line_network_host_empty: "load_line io st (kv_quoted ''host'' []) = Inr st"
  by (rule load_line_empty_value [OF kv_quoted_shape]) (simp add: parse_value_kv_quoted_empty)

lemma network_lines_no_host:
  assumes "fits_int (max_clients net)" and "fits_int (send_buffer_size net)"
    and "reads_back io (ping_interval net)" and "host net = []"
    and "static_ip net = []" and "static_ip (network cfg) = []"
  shows "load_lines io (''network'', cfg)
           (kv_quoted ''host'' (host net)
            # kv ''port'' (show_u16 (port net))
            # kv ''http_port'' (show_u16 (http_port net))
            # kv_quoted ''static_ip'' (static_ip net)
            # kv ''max_clients'' (show_u32 (max_clients net))
            # kv ''send_buffer_size'' (show_u32 (send_buffer_size net))
            # kv ''ping_interval'' (show_f32 io (ping_interval net))
            # kv ''use_tcp_nodelay'' (show_bool (use_tcp_nodelay net))
            # kv ''use_cork'' (show_bool (use_cork net))
            # rest)
         = load_lines io (''network'', cfg\<lparr>network := net\<lparr>host := host (network cfg)\<rparr>\<rparr>) rest"
proof -
  note f = assms(1,2) [unfolded fits_int_def]
  from assms(3) have p: "token (show_f32 io (ping_interval net))"
      "stof io (show_f32 io (ping_interval net)) = Inr (ping_interval net)"
    by (simp_all add: reads_back_def)
  have "load_lines io (''network'', cfg)
           (kv_quoted ''host'' []
            # kv ''port'' (show_u16 (port net))
            # kv ''http_port'' (show_u16 (http_port net))
            # kv_quoted ''static_ip'' []
            # kv ''max_clients'' (show_u32 (max_clients net))
            # kv ''send_buffer_size'' (show_u32 (send_buffer_size net))
            # kv ''ping_interval'' (show_f32 io (ping_interval net))
            # kv ''use_tcp_nodelay'' (show_bool (use_tcp_nodelay net))
            # kv ''use_cork'' (show_bool (use_cork net))
            # rest)
      = load_lines io (''network'', cfg\<lparr>network := (network cfg)
          \<lparr>port := port net, http_port := http_port net,
           max_clients := max_clients net, send_buffer_size := send_buffer_size net,
           ping_interval := ping_interval net, use_tcp_nodelay := use_tcp_nodelay net,
           use_cork := use_cork net\<rparr>\<rparr>) rest"
    by (simp add: line_network_host_empty line_network_static_ip_empty
        line_network_port line_network_http_port
        line_network_max_clients [OF f(1)] line_network_send_buffer_size [OF f(2)]
        line_network_ping_interval [OF p] line_network_use_tcp_nodelay line_network_use_cork)
  moreover have "(network cfg)
          \<lparr>port := port net, http_port := http_port net,
           max_clients := max_clients net, send_buffer_size := send_buffer_size net,
           ping_interval := ping_interval net, use_tcp_nodelay := use_tcp_nodelay net,
           use_cork := use_cork net\<rparr> = net\<lparr>host := host (network cfg)\<rparr>"
    using assms(4,5,6) by (cases "network cfg", cases net) simp
  ultimately show ?thesis
    using assms(4,5) by simp
qed

text \<open>The lines of a file that \<open>save\<close> wrote are the lines that \<open>getline\<close> delivers.\<close>

lemma kv_token_no_newline:
  "list_all (\<lambda>ch. ch \<noteq> newline) key \<Longrightarrow> token v \<Longrightarrow> list_all (\<lambda>ch. ch \<noteq> newline) (kv key v)"
  by (simp add: kv_no_newline token_no_newline)

lemma quotable_no_newline: "v = [] \<or> quotable v \<Longrightarrow> list_all (\<lambda>ch. ch \<noteq> newline) v"
  by (auto simp: quotable_def)

lemma getlines_save_text:
  assumes "writes_tokens io c"
  shows "getlines (save_text io c) = save_lines io c"
proof -
  note w = assms [unfolded writes_tokens_def]
  have k: "list_all (\<lambda>ch. ch \<noteq> newline) (kv key v)"
    if "list_all (\<lambda>ch. ch \<noteq> newline) key" and "token v" for key v
    using that by (rule kv_token_no_newline)
  have q: "list_all (\<lambda>ch. ch \<noteq> newline) (kv_quoted key v)"
    if "list_all (\<lambda>ch. ch \<noteq> newline) key" and "v = [] \<or> quotable v" for key v
    using that by (simp add: kv_quoted_no_newline quotable_no_newline)
  have "list_all (\<lambda>l. list_all (\<lambda>ch. ch \<noteq> newline) l) (save_lines io c)"
    unfolding save_lines_def using w
    by (simp add: k [unfolded newline_def] q [unfolded newline_def] token_show_u32
        token_show_u16 token_show_i32 token_show_bool token_show_method newline_def)
  then show ?thesis
    unfolding getlines_def save_text_def by (rule getlines_concat)
qed

lemma storable_writes_tokens: "storable io c \<Longrightarrow> writes_tokens io c"
  by (auto simp: storable_def writes_tokens_def reads_back_def)

lemma load_save_lines:
  assumes "storable io c"
  shows "load_lines io ('''', Config_new) (save_lines io c) = Inr (''network'', c)"
proof -
  note s = assms [unfolded storable_def]
  have cap: "fits_int (target_fps (capture c))" "fits_int (monitor_index (capture c))"
    "fits_int (frame_buffer_count (capture c))"
    using s by simp_all
  have enc: "fits_int (jpeg_quality (encoder c))" "fits_int (output_width (encoder c))"
    "fits_int (output_height (encoder c))" "fits_int (h264_bitrate (encoder c))"
    "fits_int (h264_gop_length (encoder c))" "reads_back io (downscale_factor (encoder c))"
    "reads_back io (eye_separation (encoder c))"
    using s by simp_all
  have net: "fits_int (max_clients (network c))" "fits_int (send_buffer_size (network c))"
    "reads_back io (ping_interval (network c))" "quotable (host (network c))"
    using s by simp_all
  have ip: "static_ip (network c) = []
        \<and> static_ip (network (Config_new\<lparr>capture := capture c, encoder := encoder c\<rparr>)) = []
      \<or> quotable (static_ip (network c)) \<and> \<not> sublist ''host:'' (static_ip (network c))
        \<and> \<not> sublist ''port:'' (static_ip (network c))"
    using s by (simp add: Config_new_def)
  show ?thesis
    unfolding save_lines_def
    by (simp only: load_lines_Cons_ok [OF load_line_comment] load_lines_Cons_ok [OF load_line_blank]
        load_lines_Cons_ok [OF load_line_capture] load_lines_Cons_ok [OF load_line_encoder]
        load_lines_Cons_ok [OF load_line_network]
        capture_lines [OF cap] encoder_lines [OF enc] network_lines [OF net ip]
        load_lines.simps(1) config_all Config.update_convs Config.simps)
qed

lemma load_save_lines_no_host:
  assumes "storable io (c\<lparr>network := (network c)\<lparr>host := h\<rparr>\<rparr>)"
    and "host (network c) = []" and "static_ip (network c) = []"
  shows "load_lines io ('''', Config_new) (save_lines io c)
       = Inr (''network'', c\<lparr>network := (network c)\<lparr>host := host (network Config_new)\<rparr>\<rparr>)"
proof -
  note s = assms(1) [unfolded storable_def]
  have cap: "fits_int (target_fps (capture c))" "fits_int (monitor_index (capture c))"
    "fits_int (frame_buffer_count (capture c))"
    using s by simp_all
  have enc: "fits_int (jpeg_quality (encoder c))" "fits_int (output_width (encoder c))"
    "fits_int (output_height (encoder c))" "fits_int (h264_bitrate (encoder c))"
    "fits_int (h264_gop_length (encoder c))" "reads_back io (downscale_factor (encoder c))"
    "reads_back io (eye_separation (encoder c))"
    using s by simp_all
  have net: "fits_int (max_clients (network c))" "fits_int (send_buffer_size (network c))"
    "reads_back io (ping_interval (network c))"
    using s by simp_all
  have ip: "static_ip (network (Config_new\<lparr>capture := capture c, encoder := encoder c\<rparr>)) = []"
    by (simp add: Config_new_def)
  have r: "Config_new\<lparr>capture := capture c, encoder := encoder c,
             network := (network c)\<lparr>host := host (network
               (Config_new\<lparr>capture := capture c, encoder := encoder c\<rparr>))\<rparr>\<rparr>
         = c\<lparr>network := (network c)\<lparr>host := host (network Config_new)\<rparr>\<rparr>"
    by (cases c) simp
  show ?thesis
    unfolding save_lines_def
    by (simp only: load_lines_Cons_ok [OF load_line_comment] load_lines_Cons_ok [OF load_line_blank]
        load_lines_Cons_ok [OF load_line_capture] load_lines_Cons_ok [OF load_line_encoder]
        load_lines_Cons_ok [OF load_line_network]
        capture_lines [OF cap] encoder_lines [OF enc]
        network_lines_no_host [OF net assms(2,3) ip]
        load_lines.simps(1) r Config.update_convs Config.simps)
qed

lemma storable_example:
  "storable small_float_io
     (Config_new\<lparr>encoder := (encoder Config_new)
        \<lparr>downscale_factor := Finite (Flt 1 (- 1)), eye_separation := Finite (Flt 0 0)\<rparr>\<rparr>)"
  by (simp add: storable_def fits_int_def reads_back_def small_float_io_def Config_new_def
      token_def quotable_def newline_def dquote_def carriage_return_def)

text \<open>
  C8, as stated, is for every configuration and every path. An empty \<open>host\<close> is written
  as \<open>host: ""\<close>; \<open>load\<close> skips a line whose value is empty after trimming, so the
  configuration it returns has the \<open>host\<close> of \<open>Config config;\<close>, \<open>0.0.0.0\<close>. The other
  values of the example are the defaults, with the floats 0.5, 0 and 1.
\<close>

theorem config_empty_host_not_restored:
  "(let c = Config_new\<lparr>encoder := (encoder Config_new)
              \<lparr>downscale_factor := Finite (Flt 1 (- 1)), eye_separation := Finite (Flt 0 0)\<rparr>,
            network := (network Config_new)\<lparr>host := ''''\<rparr>\<rparr>;
        fs = \<lparr>files = (\<lambda>p. None), writable = (\<lambda>p. True)\<rparr>;
        saved = Config_save small_float_io fs ''config.yaml'' c;
        loaded = Config_load small_float_io (snd saved) ''config.yaml''
    in fst saved
     \<and> loaded = Inr (c\<lparr>network := (network c)\<lparr>host := ''0.0.0.0''\<rparr>\<rparr>)
     \<and> loaded \<noteq> Inr c)"
proof -
  define c where "c = Config_new\<lparr>encoder := (encoder Config_new)
              \<lparr>downscale_factor := Finite (Flt 1 (- 1)), eye_separation := Finite (Flt 0 0)\<rparr>,
            network := (network Config_new)\<lparr>host := ''''\<rparr>\<rparr>"
  have e: "c\<lparr>network := (network c)\<lparr>host := ''0.0.0.0''\<rparr>\<rparr>
      = Config_new\<lparr>encoder := (encoder Config_new)
        \<lparr>downscale_factor := Finite (Flt 1 (- 1)), eye_separation := Finite (Flt 0 0)\<rparr>\<rparr>"
    by (simp add: c_def Config_new_def)
  have s: "storable small_float_io (c\<lparr>network := (network c)\<lparr>host := ''0.0.0.0''\<rparr>\<rparr>)"
    unfolding e by (rule storable_example)
  have h: "host (network c) = []" "static_ip (network c) = []"
    "host (network Config_new) = ''0.0.0.0''"
    by (simp_all add: c_def Config_new_def)
  have t: "writes_tokens small_float_io c"
    using storable_writes_tokens [OF s] by (simp add: writes_tokens_def h)
  have l: "load_text small_float_io (save_text small_float_io c)
      = Inr (c\<lparr>network := (network c)\<lparr>host := ''0.0.0.0''\<rparr>\<rparr>)"
    by (simp add: load_text_def getlines_save_text [OF t] load_save_lines_no_host [OF s h(1,2)] h(3))
  have n: "c\<lparr>network := (network c)\<lparr>host := ''0.0.0.0''\<rparr>\<rparr> \<noteq> c"
  proof
    assume "c\<lparr>network := (network c)\<lparr>host := ''0.0.0.0''\<rparr>\<rparr> = c"
    then have "host (network (c\<lparr>network := (network c)\<lparr>host := ''0.0.0.0''\<rparr>\<rparr>)) = host (network c)"
      by (rule arg_cong)
    then show False by (simp add: h)
  qed
  show ?thesis
    unfolding Let_def c_def [symmetric] using l n
    by (simp add: Config_save_def Config_load_def)
qed

text \<open>
  C8, amended. When the file can be written and the configuration is one that the format
  holds (\<open>storable\<close>: every \<open>u32\<close> value is an \<open>int\<close>; every float is written as a text
  that is read back as the same value; \<open>host\<close> is a text that keeps its ends between
  double quotes, and \<open>static_ip\<close> is empty or such a text, without \<open>host:\<close> and \<open>port:\<close>
  in it), \<open>save\<close> returns true and \<open>load\<close> of the same path returns the configuration
  that was saved: every key compares equal.
\<close>

theorem config_save_load:
  assumes "writable fs filepath" and "storable io c"
  shows "fst (Config_save io fs filepath c)
       \<and> Config_load io (snd (Config_save io fs filepath c)) filepath = Inr c"
proof -
  have "load_text io (save_text io c) = Inr c"
    by (simp add: load_text_def getlines_save_text [OF storable_writes_tokens [OF assms(2)]]
        load_save_lines [OF assms(2)])
  then show ?thesis
    using assms(1) by (simp add: Config_save_def Config_load_def)
qed

theorem config_save_load_witness:
  "(let c = Config_new\<lparr>encoder := (encoder Config_new)
              \<lparr>downscale_factor := Finite (Flt 1 (- 1)), eye_separation := Finite (Flt 0 0)\<rparr>\<rparr>;
        fs = \<lparr>files = (\<lambda>p. None), writable = (\<lambda>p. True)\<rparr>
    in writable fs ''config.yaml'' \<and> storable small_float_io c
     \<and> fst (Config_save small_float_io fs ''config.yaml'' c)
     \<and> Config_load small_float_io (snd (Config_save small_float_io fs ''config.yaml'' c))
          ''config.yaml'' = Inr c)"
proof -
  have w: "writable \<lparr>files = (\<lambda>p. None), writable = (\<lambda>p. True)\<rparr> ''config.yaml''"
    by simp
  from config_save_load [OF w storable_example] w storable_example show ?thesis
    unfolding Let_def by blast
qed

end
